theory Spec2Isabelle
  imports Complex_Main "HOL-Library.Multiset"
begin

section \<open>Data model of the markdown to Google Docs request converter\<close>

text \<open>
  The converter of \<^verbatim>\<open>src/markdownToGoogleDocs.ts\<close> walks the token stream of the
  markdown-it tokenizer and collects Google Docs batch-update requests in a mutable
  \<^verbatim>\<open>ConversionContext\<close>. The model threads that context explicitly. JavaScript strings
  are modelled as \<open>string\<close>, one \<open>char\<close> per code unit (code units up to 255), so that
  \<open>length\<close> is \<^verbatim>\<open>.length\<close>; document indices are \<open>int\<close>.

  The tokenizer is an external library. A token type is one constructor of \<open>tokenType\<close>
  for every type name the switch of \<^verbatim>\<open>processToken\<close> mentions, and \<open>T_other\<close> for every
  other type name (the \<^verbatim>\<open>default\<close> arm).
\<close>

datatype tokenType =
    T_heading_open | T_heading_close
  | T_paragraph_open | T_paragraph_close
  | T_text | T_code_inline
  | T_strong_open | T_strong_close
  | T_em_open | T_em_close
  | T_s_open | T_s_close
  | T_link_open | T_link_close
  | T_bullet_list_open | T_bullet_list_close
  | T_ordered_list_open | T_ordered_list_close
  | T_list_item_open | T_list_item_close
  | T_softbreak | T_hardbreak
  | T_inline
  | T_table_open
  | T_tbody_open | T_tbody_close | T_thead_open | T_thead_close
  | T_tr_open | T_tr_close | T_th_open | T_th_close | T_td_open | T_td_close
  | T_table_close
  | T_fence | T_code_block
  | T_hr
  | T_blockquote_open | T_blockquote_close
  | T_other

text \<open>
  A markdown-it token: its type, its HTML tag, its literal content, its attributes
  (\<^verbatim>\<open>null\<close> or a list of name/value pairs) and its children (\<^verbatim>\<open>null\<close> or a list).
\<close>

datatype token =
  Token (ttype: tokenType) (tag: string) (content: string)
        (attrs: "(string \<times> string) list option") (children: "token list option")

text \<open>
  Modelled from the spec: the error classes. \<^verbatim>\<open>MarkdownConversionError\<close> is declared in
  \<^verbatim>\<open>src/types.ts\<close>, which is not among the sources, and \<^verbatim>\<open>UserError\<close> in a library. A
  conversion error carries a message; the converter constructs each error from a message
  alone, so a thrown value is its class and its message. \<^verbatim>\<open>TypeError\<close> is the error of
  the runtime for a property read on \<^verbatim>\<open>undefined\<close>.
\<close>

datatype error =
    MarkdownConversionError string
  | UserError string
  | TypeError string

text \<open>The message of a thrown value, as \<^verbatim>\<open>error.message\<close> reads it.\<close>

fun message :: "error \<Rightarrow> string" where
  "message (MarkdownConversionError m) = m"
| "message (UserError m) = m"
| "message (TypeError m) = m"

record formattingState =
  bold :: "bool option"
  italic :: "bool option"
  strikethrough :: "bool option"
  link :: "string option"
  code :: "bool option"

record textRange =
  startIndex :: int
  endIndex :: int
  formatting :: formattingState

record paragraphRange =
  pr_startIndex :: int
  pr_endIndex :: int
  namedStyleType :: "string option"

datatype listType = Bullet | Ordered

record listState =
  ltype :: listType
  level :: nat

datatype bulletPreset =
  NUMBERED_DECIMAL_ALPHA_ROMAN | BULLET_DISC_CIRCLE_SQUARE | BULLET_CHECKBOX

record pendingListItem =
  li_startIndex :: int
  li_endIndex :: "int option"
  nestingLevel :: nat
  bulletPresetOf :: bulletPreset
  taskPrefixProcessed :: bool

record hrRange =
  hr_startIndex :: int
  hr_endIndex :: int

subsection \<open>Requests of the Docs API\<close>

record location =
  loc_index :: int
  loc_tabId :: "string option"

record docRange =
  range_startIndex :: int
  range_endIndex :: int
  range_tabId :: "string option"

record rgbColor =
  red :: rat
  green :: rat
  blue :: rat

record textStyle =
  ts_bold :: "bool option"
  ts_italic :: "bool option"
  ts_underline :: "bool option"
  ts_strikethrough :: "bool option"
  ts_fontSize :: "rat option"
  ts_weightedFontFamily :: "string option"
  ts_foregroundColor :: "rgbColor option"
  ts_backgroundColor :: "rgbColor option"
  ts_link :: "string option"

text \<open>
  The bottom border of a horizontal rule: colour, width and padding in points, dash style.
\<close>

record border =
  b_color :: rgbColor
  b_width :: rat
  b_padding :: rat
  b_dashStyle :: string

record paragraphStyle =
  ps_alignment :: "string option"
  ps_indentStart :: "rat option"
  ps_indentEnd :: "rat option"
  ps_spaceAbove :: "rat option"
  ps_spaceBelow :: "rat option"
  ps_namedStyleType :: "string option"
  ps_keepWithNext :: "bool option"
  ps_borderBottom :: "border option"

datatype request =
    InsertText location string
  | UpdateTextStyle docRange textStyle string
  | UpdateParagraphStyle docRange paragraphStyle string
  | CreateParagraphBullets docRange bulletPreset

record conversionContext =
  currentIndex :: int
  insertRequests :: "request list"
  formatRequests :: "request list"
  textRanges :: "textRange list"
  formattingStack :: "formattingState list"
  listStack :: "listState list"
  paragraphRanges :: "paragraphRange list"
  pendingListItems :: "pendingListItem list"
  openListItemStack :: "nat list"
  hrRanges :: "hrRange list"
  tabId :: "string option"
  currentParagraphStart :: "int option"
  currentHeadingLevel :: "nat option"


section \<open>Helpers of the JavaScript runtime\<close>

text \<open>
  White space as \<^verbatim>\<open>String.prototype.trim\<close> and the regular expression class
  \<^verbatim>\<open>\s\<close> see it, among the code units up to 255: tab, line feed, vertical tab, form
  feed, carriage return, space and no-break space.
\<close>

definition isWhiteSpace :: "char \<Rightarrow> bool" where
  "isWhiteSpace c = ((of_char c :: nat) \<in> {9, 10, 11, 12, 13, 32, 160})"

definition trim :: "string \<Rightarrow> string" where
  "trim s = rev (dropWhile isWhiteSpace (rev (dropWhile isWhiteSpace s)))"

abbreviation newline :: char where
  "newline \<equiv> CHR 0x0A"

abbreviation tabChar :: char where
  "tabChar \<equiv> CHR 0x09"

text \<open>\<^verbatim>\<open>s.endsWith(suffix)\<close>.\<close>

definition endsWith :: "string \<Rightarrow> string \<Rightarrow> bool" where
  "endsWith s suffix = (length suffix \<le> length s \<and> drop (length s - length suffix) s = suffix)"

text \<open>\<^verbatim>\<open>s.split('\n')\<close>: the empty string splits into one empty line.\<close>

fun splitLines :: "string \<Rightarrow> string list" where
  "splitLines [] = [[]]"
| "splitLines (c # cs) =
     (if c = newline then [] # splitLines cs
      else (case splitLines cs of
              [] \<Rightarrow> [[c]]
            | l # ls \<Rightarrow> (c # l) # ls))"

text \<open>\<^verbatim>\<open>fields.join(',')\<close>.\<close>

fun joinComma :: "string list \<Rightarrow> string" where
  "joinComma [] = []"
| "joinComma [x] = x"
| "joinComma (x # y # r) = x @ '','' @ joinComma (y # r)"

text \<open>A string or an optional string in a condition: \<^verbatim>\<open>undefined\<close> and \<^verbatim>\<open>''\<close> are falsy.\<close>

fun truthy :: "string option \<Rightarrow> bool" where
  "truthy None = False"
| "truthy (Some s) = (s \<noteq> [])"

text \<open>An optional boolean in a condition: only \<^verbatim>\<open>true\<close> is truthy.\<close>

fun truthyB :: "bool option \<Rightarrow> bool" where
  "truthyB None = False"
| "truthyB (Some b) = b"

definition isDigit :: "char \<Rightarrow> bool" where
  "isDigit c = (48 \<le> (of_char c :: nat) \<and> (of_char c :: nat) \<le> 57)"

text \<open>The decimal numeral of a heading level inside the template \<^verbatim>\<open>`HEADING_${level}`\<close>.\<close>

fun digitString :: "nat \<Rightarrow> string" where
  "digitString n = (if n < 10 then [char_of (48 + n)] else digitString (n div 10) @ [char_of (48 + n mod 10)])"

declare digitString.simps [simp del]

section \<open>The helpers of \<^verbatim>\<open>src/markdownParser.ts\<close>\<close>

text \<open>
  \<^verbatim>\<open>getLinkHref\<close>: the value of the first attribute named \<^verbatim>\<open>href\<close> of a
  \<^verbatim>\<open>link_open\<close> token.
\<close>

definition getLinkHref :: "token \<Rightarrow> string option" where
  "getLinkHref tok =
     (if ttype tok \<noteq> T_link_open then None
      else (case attrs tok of
              None \<Rightarrow> None
            | Some as \<Rightarrow> (case find (\<lambda>attr. fst attr = ''href'') as of
                           None \<Rightarrow> None
                         | Some hrefAttr \<Rightarrow> Some (snd hrefAttr))))"

text \<open>
  The first match of \<^verbatim>\<open>/h(\d)/\<close> in a tag: the digit after the first \<^verbatim>\<open>h\<close> that a
  digit follows, read by \<^verbatim>\<open>parseInt\<close>.
\<close>

fun matchHDigit :: "string \<Rightarrow> nat option" where
  "matchHDigit (c # d # r) =
     (if c = CHR ''h'' \<and> isDigit d then Some ((of_char d :: nat) - 48) else matchHDigit (d # r))"
| "matchHDigit _ = None"

text \<open>
  \<^verbatim>\<open>getHeadingLevel\<close>. The test \<^verbatim>\<open>token.type.startsWith('heading_')\<close> holds of the two
  heading types among the types of \<open>tokenType\<close>.
\<close>

definition getHeadingLevel :: "token \<Rightarrow> nat option" where
  "getHeadingLevel tok =
     (if \<not> (ttype tok = T_heading_open \<or> ttype tok = T_heading_close) then None
      else matchHDigit (tag tok))"

section \<open>The style request builders of \<^verbatim>\<open>src/googleDocsApiHelpers.ts\<close>\<close>

record textStyleArgs =
  arg_bold :: "bool option"
  arg_italic :: "bool option"
  arg_underline :: "bool option"
  arg_strikethrough :: "bool option"
  arg_fontSize :: "rat option"
  arg_fontFamily :: "string option"
  arg_foregroundColor :: "string option"
  arg_backgroundColor :: "string option"
  arg_linkUrl :: "string option"

definition noTextStyleArgs :: textStyleArgs where
  "noTextStyleArgs =
     \<lparr>arg_bold = None, arg_italic = None, arg_underline = None, arg_strikethrough = None,
      arg_fontSize = None, arg_fontFamily = None, arg_foregroundColor = None,
      arg_backgroundColor = None, arg_linkUrl = None\<rparr>"

definition emptyTextStyle :: textStyle where
  "emptyTextStyle =
     \<lparr>ts_bold = None, ts_italic = None, ts_underline = None, ts_strikethrough = None,
      ts_fontSize = None, ts_weightedFontFamily = None, ts_foregroundColor = None,
      ts_backgroundColor = None, ts_link = None\<rparr>"

text \<open>
  The range of a request; the tab id is attached only when it is truthy.
\<close>

definition mkRange :: "int \<Rightarrow> int \<Rightarrow> string option \<Rightarrow> docRange" where
  "mkRange s e tab =
     \<lparr>range_startIndex = s, range_endIndex = e,
      range_tabId = (if truthy tab then tab else None)\<rparr>"

text \<open>
  \<^verbatim>\<open>buildUpdateTextStyleRequest\<close>. The function \<^verbatim>\<open>hexToRgbColor\<close> lives in
  \<^verbatim>\<open>src/types.ts\<close> and is a parameter here: it returns \<^verbatim>\<open>null\<close> (\<open>None\<close>) for a
  string it does not accept, and the builder then throws a \<^verbatim>\<open>UserError\<close>. The two
  colour steps come first in the model, in their source order, since they are the only
  ones that can throw; the other fields are independent assignments.
\<close>

definition buildUpdateTextStyleRequest ::
  "(string \<Rightarrow> rgbColor option) \<Rightarrow> int \<Rightarrow> int \<Rightarrow> textStyleArgs \<Rightarrow> string option
   \<Rightarrow> error + (request \<times> string list) option" where
  "buildUpdateTextStyleRequest hexToRgbColor s e style tab =
     (case (case arg_foregroundColor style of
              None \<Rightarrow> Inr None
            | Some h \<Rightarrow> (case hexToRgbColor h of
                          None \<Rightarrow> Inl (UserError (''Invalid foreground hex color format: '' @ h))
                        | Some c \<Rightarrow> Inr (Some c))) of
        Inl err \<Rightarrow> Inl err
      | Inr fg \<Rightarrow>
     (case (case arg_backgroundColor style of
              None \<Rightarrow> Inr None
            | Some h \<Rightarrow> (case hexToRgbColor h of
                          None \<Rightarrow> Inl (UserError (''Invalid background hex color format: '' @ h))
                        | Some c \<Rightarrow> Inr (Some c))) of
        Inl err \<Rightarrow> Inl err
      | Inr bg \<Rightarrow>
       (let textStyle =
              \<lparr>ts_bold = arg_bold style, ts_italic = arg_italic style,
               ts_underline = arg_underline style, ts_strikethrough = arg_strikethrough style,
               ts_fontSize = arg_fontSize style, ts_weightedFontFamily = arg_fontFamily style,
               ts_foregroundColor = fg, ts_backgroundColor = bg, ts_link = arg_linkUrl style\<rparr>;
            fieldsToUpdate =
              (if arg_bold style \<noteq> None then [''bold''] else []) @
              (if arg_italic style \<noteq> None then [''italic''] else []) @
              (if arg_underline style \<noteq> None then [''underline''] else []) @
              (if arg_strikethrough style \<noteq> None then [''strikethrough''] else []) @
              (if arg_fontSize style \<noteq> None then [''fontSize''] else []) @
              (if arg_fontFamily style \<noteq> None then [''weightedFontFamily''] else []) @
              (if arg_foregroundColor style \<noteq> None then [''foregroundColor''] else []) @
              (if arg_backgroundColor style \<noteq> None then [''backgroundColor''] else []) @
              (if arg_linkUrl style \<noteq> None then [''link''] else [])
        in if fieldsToUpdate = [] then Inr None
           else Inr (Some (UpdateTextStyle (mkRange s e tab) textStyle (joinComma fieldsToUpdate),
                           fieldsToUpdate)))))"

record paragraphStyleArgs =
  parg_alignment :: "string option"
  parg_indentStart :: "rat option"
  parg_indentEnd :: "rat option"
  parg_spaceAbove :: "rat option"
  parg_spaceBelow :: "rat option"
  parg_namedStyleType :: "string option"
  parg_keepWithNext :: "bool option"

text \<open>\<^verbatim>\<open>buildUpdateParagraphStyleRequest\<close>, without its console output.\<close>

definition buildUpdateParagraphStyleRequest ::
  "int \<Rightarrow> int \<Rightarrow> paragraphStyleArgs \<Rightarrow> string option \<Rightarrow> (request \<times> string list) option" where
  "buildUpdateParagraphStyleRequest s e style tab =
     (let paragraphStyle =
            \<lparr>ps_alignment = parg_alignment style, ps_indentStart = parg_indentStart style,
             ps_indentEnd = parg_indentEnd style, ps_spaceAbove = parg_spaceAbove style,
             ps_spaceBelow = parg_spaceBelow style, ps_namedStyleType = parg_namedStyleType style,
             ps_keepWithNext = parg_keepWithNext style, ps_borderBottom = None\<rparr>;
          fieldsToUpdate =
            (if parg_alignment style \<noteq> None then [''alignment''] else []) @
            (if parg_indentStart style \<noteq> None then [''indentStart''] else []) @
            (if parg_indentEnd style \<noteq> None then [''indentEnd''] else []) @
            (if parg_spaceAbove style \<noteq> None then [''spaceAbove''] else []) @
            (if parg_spaceBelow style \<noteq> None then [''spaceBelow''] else []) @
            (if parg_namedStyleType style \<noteq> None then [''namedStyleType''] else []) @
            (if parg_keepWithNext style \<noteq> None then [''keepWithNext''] else [])
      in if fieldsToUpdate = [] then None
         else Some (UpdateParagraphStyle (mkRange s e tab) paragraphStyle (joinComma fieldsToUpdate),
                    fieldsToUpdate))"


section \<open>The converter of \<^verbatim>\<open>src/markdownToGoogleDocs.ts\<close>\<close>

definition CODE_FONT_FAMILY :: string where
  "CODE_FONT_FAMILY = ''Roboto Mono''"

definition CODE_TEXT_HEX :: string where
  "CODE_TEXT_HEX = ''#188038''"

definition CODE_BACKGROUND_HEX :: string where
  "CODE_BACKGROUND_HEX = ''#F1F3F4''"

subsection \<open>Insertions and the last insertion\<close>

definition insertText :: "string \<Rightarrow> conversionContext \<Rightarrow> conversionContext" where
  "insertText txt ctx =
     ctx\<lparr>insertRequests :=
           insertRequests ctx @
           [InsertText \<lparr>loc_index = currentIndex ctx,
                        loc_tabId = (if truthy (tabId ctx) then tabId ctx else None)\<rparr> txt],
         currentIndex := currentIndex ctx + int (length txt)\<rparr>"

text \<open>
  The text of the last insert request, \<^verbatim>\<open>undefined\<close> when there is none or when the last
  request is not an insertion.
\<close>

definition lastInsertText :: "conversionContext \<Rightarrow> string option" where
  "lastInsertText ctx =
     (if insertRequests ctx = [] then None
      else (case last (insertRequests ctx) of
              InsertText l t \<Rightarrow> Some t
            | _ \<Rightarrow> None))"

definition lastInsertEndsWithNewline :: "conversionContext \<Rightarrow> bool" where
  "lastInsertEndsWithNewline ctx =
     (case lastInsertText ctx of
        None \<Rightarrow> False
      | Some t \<Rightarrow> t \<noteq> [] \<and> endsWith t [newline])"

definition lastInsertEndsWithDoubleNewline :: "conversionContext \<Rightarrow> bool" where
  "lastInsertEndsWithDoubleNewline ctx =
     (case lastInsertText ctx of
        None \<Rightarrow> False
      | Some t \<Rightarrow> t \<noteq> [] \<and> endsWith t [newline, newline])"

text \<open>
  \<^verbatim>\<open>getCurrentOpenListItem\<close> returns a reference to the innermost open pending item;
  the model returns its index in \<open>pendingListItems\<close>, and the callers write through it.
\<close>

definition getCurrentOpenListItem :: "conversionContext \<Rightarrow> nat option" where
  "getCurrentOpenListItem ctx =
     (if openListItemStack ctx = [] then None
      else (let openIndex = last (openListItemStack ctx)
            in if openIndex < length (pendingListItems ctx) then Some openIndex else None))"

subsection \<open>The formatting stack\<close>

definition emptyFormatting :: formattingState where
  "emptyFormatting = \<lparr>bold = None, italic = None, strikethrough = None, link = None, code = None\<rparr>"

text \<open>One round of the loop of \<^verbatim>\<open>mergeFormattingStack\<close>.\<close>

definition mergeState :: "formattingState \<Rightarrow> formattingState \<Rightarrow> formattingState" where
  "mergeState merged state =
     (let m1 = (if bold state \<noteq> None then merged\<lparr>bold := bold state\<rparr> else merged);
          m2 = (if italic state \<noteq> None then m1\<lparr>italic := italic state\<rparr> else m1);
          m3 = (if strikethrough state \<noteq> None then m2\<lparr>strikethrough := strikethrough state\<rparr> else m2);
          m4 = (if code state \<noteq> None then m3\<lparr>code := code state\<rparr> else m3)
      in (if link state \<noteq> None then m4\<lparr>link := link state\<rparr> else m4))"

definition mergeFormattingStack :: "formattingState list \<Rightarrow> formattingState" where
  "mergeFormattingStack stack = foldl mergeState emptyFormatting stack"

definition hasFormatting :: "formattingState \<Rightarrow> bool" where
  "hasFormatting f =
     (bold f = Some True \<or> italic f = Some True \<or> strikethrough f = Some True \<or>
      code f = Some True \<or> link f \<noteq> None)"

datatype formatKey = K_bold | K_italic | K_strikethrough | K_link | K_code

text \<open>\<^verbatim>\<open>state[type] !== undefined\<close>.\<close>

fun hasKey :: "formatKey \<Rightarrow> formattingState \<Rightarrow> bool" where
  "hasKey K_bold s = (bold s \<noteq> None)"
| "hasKey K_italic s = (italic s \<noteq> None)"
| "hasKey K_strikethrough s = (strikethrough s \<noteq> None)"
| "hasKey K_link s = (link s \<noteq> None)"
| "hasKey K_code s = (code s \<noteq> None)"

text \<open>
  The loop of \<^verbatim>\<open>popFormatting\<close> runs from the top of the stack (the end of the list)
  downwards and splices out the first entry that has the key; \<open>spliceLast\<close> walks the
  reversed list.
\<close>

fun spliceFirst :: "('a \<Rightarrow> bool) \<Rightarrow> 'a list \<Rightarrow> 'a list" where
  "spliceFirst P [] = []"
| "spliceFirst P (x # xs) = (if P x then xs else x # spliceFirst P xs)"

definition spliceLast :: "('a \<Rightarrow> bool) \<Rightarrow> 'a list \<Rightarrow> 'a list" where
  "spliceLast P xs = rev (spliceFirst P (rev xs))"

definition popFormatting :: "conversionContext \<Rightarrow> formatKey \<Rightarrow> conversionContext" where
  "popFormatting ctx k = ctx\<lparr>formattingStack := spliceLast (hasKey k) (formattingStack ctx)\<rparr>"

definition pushFormatting :: "formattingState \<Rightarrow> conversionContext \<Rightarrow> conversionContext" where
  "pushFormatting f ctx = ctx\<lparr>formattingStack := formattingStack ctx @ [f]\<rparr>"

subsection \<open>Headings, horizontal rules and paragraphs\<close>

definition handleHeadingOpen :: "token \<Rightarrow> conversionContext \<Rightarrow> conversionContext" where
  "handleHeadingOpen tok ctx =
     (case getHeadingLevel tok of
        None \<Rightarrow> ctx
      | Some lvl \<Rightarrow>
          if lvl \<noteq> 0
          then ctx\<lparr>currentHeadingLevel := Some lvl, currentParagraphStart := Some (currentIndex ctx)\<rparr>
          else ctx)"

definition handleHeadingClose :: "conversionContext \<Rightarrow> conversionContext" where
  "handleHeadingClose ctx =
     (case currentHeadingLevel ctx of
        None \<Rightarrow> ctx
      | Some lvl \<Rightarrow>
          (case currentParagraphStart ctx of
             None \<Rightarrow> ctx
           | Some pstart \<Rightarrow>
               if lvl \<noteq> 0
               then (let headingStyleType = ''HEADING_'' @ digitString lvl;
                         ctx1 = ctx\<lparr>paragraphRanges :=
                                     paragraphRanges ctx @
                                     [\<lparr>pr_startIndex = pstart, pr_endIndex = currentIndex ctx,
                                       namedStyleType = Some headingStyleType\<rparr>]\<rparr>;
                         ctx2 = insertText [newline] ctx1
                     in ctx2\<lparr>currentHeadingLevel := None, currentParagraphStart := None\<rparr>)
               else ctx))"

definition handleHorizontalRule :: "conversionContext \<Rightarrow> conversionContext" where
  "handleHorizontalRule ctx =
     (let ctx1 = (if \<not> lastInsertEndsWithNewline ctx then insertText [newline] ctx else ctx);
          start = currentIndex ctx1;
          ctx2 = insertText [newline] ctx1
      in ctx2\<lparr>hrRanges := hrRanges ctx2 @ [\<lparr>hr_startIndex = start, hr_endIndex = currentIndex ctx2\<rparr>]\<rparr>)"

definition handleParagraphOpen :: "conversionContext \<Rightarrow> conversionContext" where
  "handleParagraphOpen ctx =
     (if length (listStack ctx) = 0 then ctx\<lparr>currentParagraphStart := Some (currentIndex ctx)\<rparr>
      else ctx)"

definition handleParagraphClose :: "conversionContext \<Rightarrow> conversionContext" where
  "handleParagraphClose ctx =
     (let ctx1 = (if length (listStack ctx) = 0 then insertText [newline, newline] ctx
                  else if \<not> lastInsertEndsWithNewline ctx then insertText [newline] ctx
                  else ctx);
          ctx2 = (case getCurrentOpenListItem ctx1 of
                    None \<Rightarrow> ctx1
                  | Some i \<Rightarrow>
                      (let currentListItem = pendingListItems ctx1 ! i;
                           paragraphEndIndex = (if lastInsertEndsWithNewline ctx1
                                                then currentIndex ctx1 - 1 else currentIndex ctx1)
                       in if paragraphEndIndex > li_startIndex currentListItem
                          then ctx1\<lparr>pendingListItems :=
                                      (pendingListItems ctx1)
                                        [i := currentListItem\<lparr>li_endIndex := Some paragraphEndIndex\<rparr>]\<rparr>
                          else ctx1))
      in ctx2\<lparr>currentParagraphStart := None\<rparr>)"


subsection \<open>List items\<close>

definition handleListItemOpen :: "conversionContext \<Rightarrow> error + conversionContext" where
  "handleListItemOpen ctx =
     (if length (listStack ctx) = 0
      then Inl (MarkdownConversionError ''List item found outside of list context'')
      else (let currentList = last (listStack ctx);
                itemStart = currentIndex ctx;
                ctx1 = (if level currentList > 0
                        then insertText (replicate (level currentList) tabChar) ctx else ctx);
                listItem = \<lparr>li_startIndex = itemStart, li_endIndex = None,
                            nestingLevel = level currentList,
                            bulletPresetOf = (if ltype currentList = Ordered
                                              then NUMBERED_DECIMAL_ALPHA_ROMAN
                                              else BULLET_DISC_CIRCLE_SQUARE),
                            taskPrefixProcessed = False\<rparr>;
                ctx2 = ctx1\<lparr>pendingListItems := pendingListItems ctx1 @ [listItem]\<rparr>
            in Inr (ctx2\<lparr>openListItemStack :=
                            openListItemStack ctx2 @ [length (pendingListItems ctx2) - 1]\<rparr>)))"

text \<open>
  \<^verbatim>\<open>handleListItemClose\<close>. An index popped from the stack that is not an index of
  \<open>pendingListItems\<close> makes \<^verbatim>\<open>listItem\<close> undefined, and reading its \<^verbatim>\<open>endIndex\<close>
  throws a \<^verbatim>\<open>TypeError\<close> (whose text depends on the engine).
\<close>

definition handleListItemClose :: "conversionContext \<Rightarrow> error + conversionContext" where
  "handleListItemClose ctx =
     (if openListItemStack ctx = [] then Inr ctx
      else
          (let openIndex = last (openListItemStack ctx);
               ctx1 = ctx\<lparr>openListItemStack := butlast (openListItemStack ctx)\<rparr>
           in if \<not> openIndex < length (pendingListItems ctx1)
              then Inl (TypeError ''Cannot read properties of undefined (reading endIndex)'')
              else (let listItem = pendingListItems ctx1 ! openIndex;
                        ctx2 = (if li_endIndex listItem = None
                                then (let computedEndIndex =
                                            (if lastInsertEndsWithNewline ctx1
                                             then currentIndex ctx1 - 1 else currentIndex ctx1)
                                      in if computedEndIndex > li_startIndex listItem
                                         then ctx1\<lparr>pendingListItems :=
                                                     (pendingListItems ctx1)
                                                       [openIndex :=
                                                          listItem\<lparr>li_endIndex := Some computedEndIndex\<rparr>]\<rparr>
                                         else ctx1)
                                else ctx1)
                    in Inr (if \<not> lastInsertEndsWithNewline ctx2
                            then insertText [newline] ctx2 else ctx2))))"

subsection \<open>Text\<close>

text \<open>
  The match of \<^verbatim>\<open>/^\[( |x|X)\]\s+/\<close>: the length of the matched prefix, a bracketed
  blank or letter x followed by all the white space after it (at least one character).
\<close>

fun taskPrefixMatch :: "string \<Rightarrow> nat option" where
  "taskPrefixMatch (a # b # c # r) =
     (if a = CHR ''['' \<and> (b = CHR '' '' \<or> b = CHR ''x'' \<or> b = CHR ''X'') \<and> c = CHR '']'' \<and>
         takeWhile isWhiteSpace r \<noteq> []
      then Some (3 + length (takeWhile isWhiteSpace r)) else None)"
| "taskPrefixMatch _ = None"

text \<open>
  The first part of \<^verbatim>\<open>handleTextToken\<close>: the task prefix of the first text of an open
  list item. It returns the text that is left and the context with the item marked.
\<close>

definition stripTaskPrefix :: "string \<Rightarrow> conversionContext \<Rightarrow> string \<times> conversionContext" where
  "stripTaskPrefix txt ctx =
     (case getCurrentOpenListItem ctx of
        None \<Rightarrow> (txt, ctx)
      | Some i \<Rightarrow>
          if taskPrefixProcessed (pendingListItems ctx ! i) then (txt, ctx)
          else (let item1 = (pendingListItems ctx ! i)\<lparr>taskPrefixProcessed := True\<rparr>
                in (case taskPrefixMatch txt of
                      None \<Rightarrow> (txt, ctx\<lparr>pendingListItems := (pendingListItems ctx)[i := item1]\<rparr>)
                    | Some n \<Rightarrow>
                        (drop n txt,
                         ctx\<lparr>pendingListItems :=
                               (pendingListItems ctx)[i := item1\<lparr>bulletPresetOf := BULLET_CHECKBOX\<rparr>]\<rparr>))))"

text \<open>
  \<^verbatim>\<open>handleTextToken\<close>. The second \<^verbatim>\<open>if (!text) return\<close> sits inside the branch of a
  matched prefix; the text is not empty on the other paths, so one test after the strip
  is the same.
\<close>

definition handleTextToken :: "token \<Rightarrow> conversionContext \<Rightarrow> conversionContext" where
  "handleTextToken tok ctx =
     (if content tok = [] then ctx
      else (case stripTaskPrefix (content tok) ctx of
              (txt, ctx1) \<Rightarrow>
                if txt = [] then ctx1
                else (let startIndex = currentIndex ctx1;
                          endIndex = startIndex + int (length txt);
                          ctx2 = insertText txt ctx1;
                          currentFormatting = mergeFormattingStack (formattingStack ctx2)
                      in if hasFormatting currentFormatting
                         then ctx2\<lparr>textRanges :=
                                     textRanges ctx2 @
                                     [\<lparr>startIndex = startIndex, endIndex = endIndex,
                                       formatting = currentFormatting\<rparr>]\<rparr>
                         else ctx2)))"

definition handleCodeInlineToken :: "token \<Rightarrow> conversionContext \<Rightarrow> conversionContext" where
  "handleCodeInlineToken tok ctx =
     popFormatting (handleTextToken tok (pushFormatting (emptyFormatting\<lparr>code := Some True\<rparr>) ctx)) K_code"

subsection \<open>Code blocks\<close>

text \<open>One round of the loop over the lines of a code block.\<close>

definition codeLine :: "string \<Rightarrow> conversionContext \<Rightarrow> conversionContext" where
  "codeLine line ctx =
     (let startIndex = currentIndex ctx;
          ctx1 = (if length line > 0
                  then (let c = insertText line ctx
                        in c\<lparr>textRanges :=
                               textRanges c @
                               [\<lparr>startIndex = startIndex, endIndex = currentIndex c,
                                 formatting = emptyFormatting\<lparr>code := Some True\<rparr>\<rparr>]\<rparr>)
                  else (let c = insertText '' '' ctx
                        in c\<lparr>textRanges :=
                               textRanges c @
                               [\<lparr>startIndex = startIndex, endIndex = currentIndex c,
                                 formatting = emptyFormatting\<lparr>code := Some True\<rparr>\<rparr>]\<rparr>))
      in insertText [newline] ctx1)"

fun codeLines :: "string list \<Rightarrow> conversionContext \<Rightarrow> conversionContext" where
  "codeLines [] ctx = ctx"
| "codeLines (line # rest) ctx = codeLines rest (codeLine line ctx)"

definition handleCodeBlockToken :: "token \<Rightarrow> conversionContext \<Rightarrow> conversionContext" where
  "handleCodeBlockToken tok ctx =
     (let normalizedContent = (if endsWith (content tok) [newline]
                               then butlast (content tok) else content tok);
          lines = (if length normalizedContent > 0 then splitLines normalizedContent else [[]]);
          ctx1 = codeLines lines ctx
      in if \<not> lastInsertEndsWithDoubleNewline ctx1 then insertText [newline] ctx1 else ctx1)"

subsection \<open>The token walk\<close>

text \<open>
  \<^verbatim>\<open>processToken\<close>, one arm per \<^verbatim>\<open>case\<close> label of the switch. The labels from
  \<^verbatim>\<open>tbody_open\<close> to \<^verbatim>\<open>table_close\<close> have no \<^verbatim>\<open>break\<close> and fall through to the arm
  of \<^verbatim>\<open>fence\<close> and \<^verbatim>\<open>code_block\<close>. \<open>processTokens\<close> is the \<^verbatim>\<open>for\<close> loop over a token
  list, which an exception leaves.
\<close>

fun processToken :: "token \<Rightarrow> conversionContext \<Rightarrow> error + conversionContext"
  and processTokens :: "token list \<Rightarrow> conversionContext \<Rightarrow> error + conversionContext" where
  "processToken (Token ty tg cnt ats chs) ctx =
     (let tok = Token ty tg cnt ats chs in
      case ty of
        T_heading_open \<Rightarrow> Inr (handleHeadingOpen tok ctx)
      | T_heading_close \<Rightarrow> Inr (handleHeadingClose ctx)
      | T_paragraph_open \<Rightarrow> Inr (handleParagraphOpen ctx)
      | T_paragraph_close \<Rightarrow> Inr (handleParagraphClose ctx)
      | T_text \<Rightarrow> Inr (handleTextToken tok ctx)
      | T_code_inline \<Rightarrow> Inr (handleCodeInlineToken tok ctx)
      | T_strong_open \<Rightarrow> Inr (pushFormatting (emptyFormatting\<lparr>bold := Some True\<rparr>) ctx)
      | T_strong_close \<Rightarrow> Inr (popFormatting ctx K_bold)
      | T_em_open \<Rightarrow> Inr (pushFormatting (emptyFormatting\<lparr>italic := Some True\<rparr>) ctx)
      | T_em_close \<Rightarrow> Inr (popFormatting ctx K_italic)
      | T_s_open \<Rightarrow> Inr (pushFormatting (emptyFormatting\<lparr>strikethrough := Some True\<rparr>) ctx)
      | T_s_close \<Rightarrow> Inr (popFormatting ctx K_strikethrough)
      | T_link_open \<Rightarrow>
          (let href = getLinkHref tok
           in if truthy href then Inr (pushFormatting (emptyFormatting\<lparr>link := href\<rparr>) ctx)
              else Inr ctx)
      | T_link_close \<Rightarrow> Inr (popFormatting ctx K_link)
      | T_bullet_list_open \<Rightarrow>
          Inr (ctx\<lparr>listStack := listStack ctx @ [\<lparr>ltype = Bullet, level = length (listStack ctx)\<rparr>]\<rparr>)
      | T_bullet_list_close \<Rightarrow> Inr (ctx\<lparr>listStack := butlast (listStack ctx)\<rparr>)
      | T_ordered_list_open \<Rightarrow>
          Inr (ctx\<lparr>listStack := listStack ctx @ [\<lparr>ltype = Ordered, level = length (listStack ctx)\<rparr>]\<rparr>)
      | T_ordered_list_close \<Rightarrow> Inr (ctx\<lparr>listStack := butlast (listStack ctx)\<rparr>)
      | T_list_item_open \<Rightarrow> handleListItemOpen ctx
      | T_list_item_close \<Rightarrow> handleListItemClose ctx
      | T_softbreak \<Rightarrow> Inr (insertText '' '' ctx)
      | T_hardbreak \<Rightarrow> Inr (insertText [newline] ctx)
      | T_inline \<Rightarrow>
          (case chs of
             None \<Rightarrow> Inr ctx
           | Some cs \<Rightarrow> processTokens cs ctx)
      | T_table_open \<Rightarrow> Inr ctx
      | T_tbody_open \<Rightarrow> Inr (handleCodeBlockToken tok ctx)
      | T_tbody_close \<Rightarrow> Inr (handleCodeBlockToken tok ctx)
      | T_thead_open \<Rightarrow> Inr (handleCodeBlockToken tok ctx)
      | T_thead_close \<Rightarrow> Inr (handleCodeBlockToken tok ctx)
      | T_tr_open \<Rightarrow> Inr (handleCodeBlockToken tok ctx)
      | T_tr_close \<Rightarrow> Inr (handleCodeBlockToken tok ctx)
      | T_th_open \<Rightarrow> Inr (handleCodeBlockToken tok ctx)
      | T_th_close \<Rightarrow> Inr (handleCodeBlockToken tok ctx)
      | T_td_open \<Rightarrow> Inr (handleCodeBlockToken tok ctx)
      | T_td_close \<Rightarrow> Inr (handleCodeBlockToken tok ctx)
      | T_table_close \<Rightarrow> Inr (handleCodeBlockToken tok ctx)
      | T_fence \<Rightarrow> Inr (handleCodeBlockToken tok ctx)
      | T_code_block \<Rightarrow> Inr (handleCodeBlockToken tok ctx)
      | T_hr \<Rightarrow> Inr (handleHorizontalRule ctx)
      | T_blockquote_open \<Rightarrow> Inr ctx
      | T_blockquote_close \<Rightarrow> Inr ctx
      | T_other \<Rightarrow> Inr ctx)"
| "processTokens [] ctx = Inr ctx"
| "processTokens (t # ts) ctx =
     (case processToken t ctx of
        Inl err \<Rightarrow> Inl err
      | Inr ctx1 \<Rightarrow> processTokens ts ctx1)"


subsection \<open>Finalization\<close>

text \<open>The requests that one text range contributes: a text style, then a link.\<close>

definition textRangeRequests ::
  "(string \<Rightarrow> rgbColor option) \<Rightarrow> string option \<Rightarrow> textRange \<Rightarrow> error + request list" where
  "textRangeRequests hexToRgbColor tab r =
     (let f = formatting r in
      case (if truthyB (bold f) \<or> truthyB (italic f) \<or> truthyB (strikethrough f) \<or> truthyB (code f)
            then (case buildUpdateTextStyleRequest hexToRgbColor (startIndex r) (endIndex r)
                         (noTextStyleArgs
                            \<lparr>arg_bold := bold f, arg_italic := italic f,
                             arg_strikethrough := strikethrough f,
                             arg_fontFamily := (if truthyB (code f) then Some CODE_FONT_FAMILY else None),
                             arg_foregroundColor := (if truthyB (code f) then Some CODE_TEXT_HEX else None),
                             arg_backgroundColor :=
                               (if truthyB (code f) then Some CODE_BACKGROUND_HEX else None)\<rparr>)
                         tab of
                    Inl err \<Rightarrow> Inl err
                  | Inr None \<Rightarrow> Inr []
                  | Inr (Some styleRequest) \<Rightarrow> Inr [fst styleRequest])
            else Inr []) of
        Inl err \<Rightarrow> Inl err
      | Inr styleReqs \<Rightarrow>
          (if truthy (link f)
           then (case buildUpdateTextStyleRequest hexToRgbColor (startIndex r) (endIndex r)
                        (noTextStyleArgs\<lparr>arg_linkUrl := link f\<rparr>) tab of
                   Inl err \<Rightarrow> Inl err
                 | Inr None \<Rightarrow> Inr styleReqs
                 | Inr (Some linkRequest) \<Rightarrow> Inr (styleReqs @ [fst linkRequest]))
           else Inr styleReqs))"

fun textRangesRequests ::
  "(string \<Rightarrow> rgbColor option) \<Rightarrow> string option \<Rightarrow> textRange list \<Rightarrow> error + request list" where
  "textRangesRequests hexToRgbColor tab [] = Inr []"
| "textRangesRequests hexToRgbColor tab (r # rs) =
     (case textRangeRequests hexToRgbColor tab r of
        Inl err \<Rightarrow> Inl err
      | Inr reqs \<Rightarrow>
          (case textRangesRequests hexToRgbColor tab rs of
             Inl err \<Rightarrow> Inl err
           | Inr others \<Rightarrow> Inr (reqs @ others)))"

definition paragraphRangeRequests :: "string option \<Rightarrow> paragraphRange \<Rightarrow> request list" where
  "paragraphRangeRequests tab p =
     (if truthy (namedStyleType p)
      then (case buildUpdateParagraphStyleRequest (pr_startIndex p) (pr_endIndex p)
                   \<lparr>parg_alignment = None, parg_indentStart = None, parg_indentEnd = None,
                    parg_spaceAbove = None, parg_spaceBelow = None,
                    parg_namedStyleType = namedStyleType p, parg_keepWithNext = None\<rparr> tab of
              None \<Rightarrow> []
            | Some paraRequest \<Rightarrow> [fst paraRequest])
      else [])"

definition hrBorder :: border where
  "hrBorder =
     \<lparr>b_color = \<lparr>red = 3 / 4, green = 3 / 4, blue = 3 / 4\<rparr>,
      b_width = 1, b_padding = 6, b_dashStyle = ''SOLID''\<rparr>"

definition hrRangeRequest :: "string option \<Rightarrow> hrRange \<Rightarrow> request" where
  "hrRangeRequest tab h =
     UpdateParagraphStyle (mkRange (hr_startIndex h) (hr_endIndex h) tab)
       \<lparr>ps_alignment = None, ps_indentStart = None, ps_indentEnd = None, ps_spaceAbove = None,
        ps_spaceBelow = None, ps_namedStyleType = None, ps_keepWithNext = None,
        ps_borderBottom = Some hrBorder\<rparr>
       ''borderBottom''"

text \<open>The test of the filter over the pending list items, repeated inside the loop.\<close>

definition hasRange :: "pendingListItem \<Rightarrow> bool" where
  "hasRange listItem =
     (case li_endIndex listItem of
        None \<Rightarrow> False
      | Some e \<Rightarrow> e > li_startIndex listItem)"

text \<open>
  \<^verbatim>\<open>.sort((a, b) => b.startIndex - a.startIndex)\<close>: a stable sort by descending start,
  here the stable insertion sort of the library on the negated start.
\<close>

definition listItemsForFormatting :: "pendingListItem list \<Rightarrow> pendingListItem list" where
  "listItemsForFormatting items = sort_key (\<lambda>a. - li_startIndex a) (filter hasRange items)"

definition listItemRequests :: "string option \<Rightarrow> pendingListItem \<Rightarrow> request list" where
  "listItemRequests tab listItem =
     (case li_endIndex listItem of
        None \<Rightarrow> []
      | Some e \<Rightarrow>
          if e > li_startIndex listItem
          then [CreateParagraphBullets (mkRange (li_startIndex listItem) e tab) (bulletPresetOf listItem)]
          else [])"

definition finalizeFormatting ::
  "(string \<Rightarrow> rgbColor option) \<Rightarrow> conversionContext \<Rightarrow> error + conversionContext" where
  "finalizeFormatting hexToRgbColor ctx =
     (case textRangesRequests hexToRgbColor (tabId ctx) (textRanges ctx) of
        Inl err \<Rightarrow> Inl err
      | Inr styleReqs \<Rightarrow>
          Inr (ctx\<lparr>formatRequests :=
                     formatRequests ctx @ styleReqs @
                     concat (map (paragraphRangeRequests (tabId ctx)) (paragraphRanges ctx)) @
                     map (hrRangeRequest (tabId ctx)) (hrRanges ctx) @
                     concat (map (listItemRequests (tabId ctx))
                               (listItemsForFormatting (pendingListItems ctx)))\<rparr>))"

subsection \<open>The main conversion function\<close>

definition initialContext :: "int \<Rightarrow> string option \<Rightarrow> conversionContext" where
  "initialContext startIdx tab =
     \<lparr>currentIndex = startIdx, insertRequests = [], formatRequests = [], textRanges = [],
      formattingStack = [], listStack = [], paragraphRanges = [], pendingListItems = [],
      openListItemStack = [], hrRanges = [], tabId = tab,
      currentParagraphStart = None, currentHeadingLevel = None\<rparr>"

text \<open>The body of the \<^verbatim>\<open>try\<close> block: the token pass, the finalization, the result.\<close>

definition tryBlock ::
  "(string \<Rightarrow> rgbColor option) \<Rightarrow> token list \<Rightarrow> conversionContext \<Rightarrow> error + request list" where
  "tryBlock hexToRgbColor tokens ctx =
     (case processTokens tokens ctx of
        Inl err \<Rightarrow> Inl err
      | Inr ctx1 \<Rightarrow>
          (case finalizeFormatting hexToRgbColor ctx1 of
             Inl err \<Rightarrow> Inl err
           | Inr ctx2 \<Rightarrow> Inr (insertRequests ctx2 @ formatRequests ctx2)))"

text \<open>
  The \<^verbatim>\<open>catch\<close> clause: a \<^verbatim>\<open>MarkdownConversionError\<close> is thrown again as it is, any
  other error is replaced by a \<^verbatim>\<open>MarkdownConversionError\<close> with a prefixed message.
\<close>

definition catchBlock :: "error + 'a \<Rightarrow> error + 'a" where
  "catchBlock r =
     (case r of
        Inr v \<Rightarrow> Inr v
      | Inl err \<Rightarrow>
          (case err of
             MarkdownConversionError m \<Rightarrow> Inl err
           | _ \<Rightarrow> Inl (MarkdownConversionError (''Failed to convert markdown: '' @ message err))))"

text \<open>
  \<^verbatim>\<open>convertMarkdownToRequests\<close>. The tokenizer \<^verbatim>\<open>parseMarkdown\<close> wraps the external
  markdown-it library and is the parameter \<open>parseMarkdown\<close>, from a markdown string to
  its token list. The start index is passed explicitly (the source defaults it to 1).
\<close>

definition convertMarkdownToRequests ::
  "(string \<Rightarrow> token list) \<Rightarrow> (string \<Rightarrow> rgbColor option) \<Rightarrow> string \<Rightarrow> int \<Rightarrow> string option
   \<Rightarrow> error + request list" where
  "convertMarkdownToRequests parseMarkdown hexToRgbColor markdown startIdx tab =
     (if markdown = [] \<or> length (trim markdown) = 0 then Inr []
      else (let parsed = parseMarkdown markdown;
                context = initialContext startIdx tab
            in catchBlock (tryBlock hexToRgbColor parsed context)))"


section \<open>Notions used to state the properties\<close>

subsection \<open>Reading a request list\<close>

fun isInsertText :: "request \<Rightarrow> bool" where
  "isInsertText (InsertText l t) = True"
| "isInsertText _ = False"

fun isBullet :: "request \<Rightarrow> bool" where
  "isBullet (CreateParagraphBullets r p) = True"
| "isBullet _ = False"

fun isTextStyle :: "request \<Rightarrow> bool" where
  "isTextStyle (UpdateTextStyle r st fs) = True"
| "isTextStyle _ = False"

text \<open>The offset and the text of every insertion of a request list, in order.\<close>

fun insertTexts :: "request list \<Rightarrow> (int \<times> string) list" where
  "insertTexts [] = []"
| "insertTexts (InsertText l t # rs) = (loc_index l, t) # insertTexts rs"
| "insertTexts (_ # rs) = insertTexts rs"

text \<open>The start offset and the preset of every bullet assignment of a request list, in order.\<close>

fun bulletStarts :: "request list \<Rightarrow> int list" where
  "bulletStarts [] = []"
| "bulletStarts (CreateParagraphBullets r p # rs) = range_startIndex r # bulletStarts rs"
| "bulletStarts (_ # rs) = bulletStarts rs"

fun bulletPresets :: "request list \<Rightarrow> bulletPreset list" where
  "bulletPresets [] = []"
| "bulletPresets (CreateParagraphBullets r p # rs) = p # bulletPresets rs"
| "bulletPresets (_ # rs) = bulletPresets rs"

text \<open>
  The start offset, the end offset and the preset of every bullet assignment of a request
  list, in order; the same three fields of a pending list item; the tab of a bullet
  assignment.
\<close>

fun bulletRanges :: "request list \<Rightarrow> (int \<times> int option \<times> bulletPreset) list" where
  "bulletRanges [] = []"
| "bulletRanges (CreateParagraphBullets r p # rs) =
     (range_startIndex r, Some (range_endIndex r), p) # bulletRanges rs"
| "bulletRanges (_ # rs) = bulletRanges rs"

definition itemRange :: "pendingListItem \<Rightarrow> int \<times> int option \<times> bulletPreset" where
  "itemRange item = (li_startIndex item, li_endIndex item, bulletPresetOf item)"

fun bulletTab :: "request \<Rightarrow> string option" where
  "bulletTab (CreateParagraphBullets r p) = range_tabId r"
| "bulletTab _ = None"

text \<open>The offsets a request addresses: its location, or the two ends of its range.\<close>

fun requestOffsets :: "request \<Rightarrow> int list" where
  "requestOffsets (InsertText l t) = [loc_index l]"
| "requestOffsets (UpdateTextStyle r st fs) = [range_startIndex r, range_endIndex r]"
| "requestOffsets (UpdateParagraphStyle r st fs) = [range_startIndex r, range_endIndex r]"
| "requestOffsets (CreateParagraphBullets r p) = [range_startIndex r, range_endIndex r]"

text \<open>The total length of the texts of the insertions of a request list.\<close>

fun insertedLength :: "request list \<Rightarrow> int" where
  "insertedLength [] = 0"
| "insertedLength (InsertText l t # rs) = int (length t) + insertedLength rs"
| "insertedLength (_ # rs) = insertedLength rs"

text \<open>
  A list of insertions is chained from an offset when each one is located where the one
  before it ended, the first one at the offset.
\<close>

fun chainedFrom :: "int \<Rightarrow> request list \<Rightarrow> bool" where
  "chainedFrom off [] = True"
| "chainedFrom off (InsertText l t # rs) = (loc_index l = off \<and> chainedFrom (off + int (length t)) rs)"
| "chainedFrom off (_ # rs) = False"

text \<open>The requests of a result, none for an error.\<close>

fun resultRequests :: "error + request list \<Rightarrow> request list" where
  "resultRequests (Inr ops) = ops"
| "resultRequests (Inl err) = []"

text \<open>\<^verbatim>\<open>s.startsWith(p)\<close> and \<^verbatim>\<open>s.includes(sub)\<close>.\<close>

fun startsWith :: "string \<Rightarrow> string \<Rightarrow> bool" where
  "startsWith s [] = True"
| "startsWith [] (p # ps) = False"
| "startsWith (c # cs) (p # ps) = (c = p \<and> startsWith cs ps)"

fun includesStr :: "string \<Rightarrow> string \<Rightarrow> bool" where
  "includesStr [] sub = (sub = [])"
| "includesStr (c # cs) sub = (startsWith (c # cs) sub \<or> includesStr cs sub)"

subsection \<open>The leaves of a token list\<close>

text \<open>
  The walk visits the children of an \<^verbatim>\<open>inline\<close> token in place of the token itself:
  the tokens it dispatches to a handler are the leaves, in this order.
\<close>

fun flattenToken :: "token \<Rightarrow> token list"
  and flattenTokens :: "token list \<Rightarrow> token list" where
  "flattenToken (Token ty tg cnt ats chs) =
     (if ty = T_inline
      then (case chs of None \<Rightarrow> [] | Some cs \<Rightarrow> flattenTokens cs)
      else [Token ty tg cnt ats chs])"
| "flattenTokens [] = []"
| "flattenTokens (t # ts) = flattenToken t @ flattenTokens ts"

text \<open>
  The walk meets a \<^verbatim>\<open>list_item_open\<close> token while no list is open: \<open>d\<close> counts the
  open lists, a list close with no open list leaves the count at zero.
\<close>

fun strayListItem :: "nat \<Rightarrow> token list \<Rightarrow> bool" where
  "strayListItem d [] = False"
| "strayListItem d (t # ts) =
     (if ttype t = T_list_item_open then d = 0 \<or> strayListItem d ts
      else if ttype t = T_bullet_list_open \<or> ttype t = T_ordered_list_open
      then strayListItem (Suc d) ts
      else if ttype t = T_bullet_list_close \<or> ttype t = T_ordered_list_close
      then strayListItem (d - 1) ts
      else strayListItem d ts)"

definition listItemOutsideListMessage :: string where
  "listItemOutsideListMessage = ''List item found outside of list context''"

text \<open>The class name of an error, which \<^verbatim>\<open>instanceof\<close> tells apart.\<close>

fun errorName :: "error \<Rightarrow> string" where
  "errorName (MarkdownConversionError m) = ''MarkdownConversionError''"
| "errorName (UserError m) = ''UserError''"
| "errorName (TypeError m) = ''TypeError''"

fun thrownErrorName :: "error + 'a \<Rightarrow> string option" where
  "thrownErrorName (Inl err) = Some (errorName err)"
| "thrownErrorName (Inr v) = None"

subsection \<open>Last writer wins\<close>

text \<open>
  The value a field has in the newest fragment of the stack that defines it, none when
  no fragment defines it.
\<close>

definition lastDefined :: "('a \<Rightarrow> 'b option) \<Rightarrow> 'a list \<Rightarrow> 'b option" where
  "lastDefined field stack =
     (case filter (\<lambda>v. v \<noteq> None) (map field stack) of
        [] \<Rightarrow> None
      | v # vs \<Rightarrow> last (v # vs))"

definition lastWriterWins :: "formattingState list \<Rightarrow> formattingState" where
  "lastWriterWins stack =
     \<lparr>bold = lastDefined bold stack, italic = lastDefined italic stack,
      strikethrough = lastDefined strikethrough stack, link = lastDefined link stack,
      code = lastDefined code stack\<rparr>"

subsection \<open>Line terminators\<close>

text \<open>
  A request list is doubly terminated when an insertion whose text ends in a line
  terminator is directly followed by the insertion of a single line terminator.
\<close>

fun endsInNewline :: "request \<Rightarrow> bool" where
  "endsInNewline (InsertText l t) = (t \<noteq> [] \<and> endsWith t [newline])"
| "endsInNewline _ = False"

fun isNewlineInsert :: "request \<Rightarrow> bool" where
  "isNewlineInsert (InsertText l t) = (t = [newline])"
| "isNewlineInsert _ = False"

fun doublyTerminated :: "request list \<Rightarrow> bool" where
  "doublyTerminated (a # b # rs) = ((endsInNewline a \<and> isNewlineInsert b) \<or> doublyTerminated (b # rs))"
| "doublyTerminated _ = False"


text \<open>
  The labels of the switch that run the code block handler: the two code block types and,
  before them, the labels of the table structure, which have no \<^verbatim>\<open>break\<close> and fall
  through.
\<close>

definition tableStructure :: "tokenType \<Rightarrow> bool" where
  "tableStructure ty =
     (ty \<in> {T_tbody_open, T_tbody_close, T_thead_open, T_thead_close, T_tr_open, T_tr_close,
             T_th_open, T_th_close, T_td_open, T_td_close, T_table_close})"

definition codeBlockArm :: "tokenType \<Rightarrow> bool" where
  "codeBlockArm ty = (tableStructure ty \<or> ty = T_fence \<or> ty = T_code_block)"




text \<open>
  A step that appends nothing, or one insertion that is no single line terminator after
  an insertion that ends in one.
\<close>

definition quietStep :: "conversionContext \<Rightarrow> conversionContext \<Rightarrow> bool" where
  "quietStep c c' =
     (insertRequests c' = insertRequests c \<or>
      (\<exists>r. insertRequests c' = insertRequests c @ [r] \<and>
           \<not> (lastInsertEndsWithNewline c \<and> isNewlineInsert r)))"

subsection \<open>Invariants of the token pass\<close>

text \<open>Every end offset that is set lies after the start of its item and before the current offset.\<close>

definition endsAfterStarts :: "conversionContext \<Rightarrow> bool" where
  "endsAfterStarts ctx =
     (\<forall>item \<in> set (pendingListItems ctx).
        \<forall>e. li_endIndex item = Some e \<longrightarrow> li_startIndex item < e \<and> e < currentIndex ctx)"

text \<open>
  From one context to a later one no pending item is dropped, no start offset changes,
  and an end offset that is set stays set and does not move backwards.
\<close>

definition endsOnlyForward :: "conversionContext \<Rightarrow> conversionContext \<Rightarrow> bool" where
  "endsOnlyForward ctx ctx' =
     (length (pendingListItems ctx) \<le> length (pendingListItems ctx') \<and>
      (\<forall>i < length (pendingListItems ctx).
         li_startIndex (pendingListItems ctx' ! i) = li_startIndex (pendingListItems ctx ! i) \<and>
         (\<forall>e. li_endIndex (pendingListItems ctx ! i) = Some e \<longrightarrow>
              (\<exists>e'. li_endIndex (pendingListItems ctx' ! i) = Some e' \<and> e \<le> e'))))"

text \<open>
  Every offset the context has recorded lies between the start offset and the current
  offset: the insertions are chained from the start offset and the current offset is
  where the last one ended; every range is ordered and inside; every pending item starts
  inside and, when its end is set, ends inside and after its start.
\<close>

definition offsetsWithin :: "int \<Rightarrow> conversionContext \<Rightarrow> bool" where
  "offsetsWithin s c =
     (s \<le> currentIndex c \<and>
      (\<forall>r \<in> set (insertRequests c). isInsertText r) \<and>
      chainedFrom s (insertRequests c) \<and>
      s + insertedLength (insertRequests c) = currentIndex c \<and>
      (\<forall>r \<in> set (textRanges c).
         s \<le> startIndex r \<and> startIndex r \<le> endIndex r \<and> endIndex r \<le> currentIndex c) \<and>
      (\<forall>p \<in> set (paragraphRanges c).
         s \<le> pr_startIndex p \<and> pr_startIndex p \<le> pr_endIndex p \<and> pr_endIndex p \<le> currentIndex c) \<and>
      (\<forall>h \<in> set (hrRanges c).
         s \<le> hr_startIndex h \<and> hr_startIndex h \<le> hr_endIndex h \<and> hr_endIndex h \<le> currentIndex c) \<and>
      (\<forall>i < length (pendingListItems c).
         s \<le> li_startIndex (pendingListItems c ! i) \<and>
         li_startIndex (pendingListItems c ! i) \<le> currentIndex c \<and>
         (\<forall>e. li_endIndex (pendingListItems c ! i) = Some e \<longrightarrow>
              li_startIndex (pendingListItems c ! i) < e \<and> e \<le> currentIndex c)) \<and>
      (\<forall>p. currentParagraphStart c = Some p \<longrightarrow> s \<le> p \<and> p \<le> currentIndex c))"

text \<open>Every index on the stack of open list items is an index of a pending item.\<close>

definition validItemIndices :: "conversionContext \<Rightarrow> bool" where
  "validItemIndices c = (\<forall>i \<in> set (openListItemStack c). i < length (pendingListItems c))"

text \<open>
  From one context to a later one no pending item is dropped, and an item whose task
  prefix mark is set keeps the mark and its bullet preset.
\<close>

definition marksKept :: "conversionContext \<Rightarrow> conversionContext \<Rightarrow> bool" where
  "marksKept ctx ctx' =
     (length (pendingListItems ctx) \<le> length (pendingListItems ctx') \<and>
      (\<forall>i < length (pendingListItems ctx).
         taskPrefixProcessed (pendingListItems ctx ! i) \<longrightarrow>
           taskPrefixProcessed (pendingListItems ctx' ! i) \<and>
           bulletPresetOf (pendingListItems ctx' ! i) = bulletPresetOf (pendingListItems ctx ! i)))"

text \<open>The end offsets of the pending items of a pass, none for a failed pass.\<close>

fun passItemEnds :: "error + conversionContext \<Rightarrow> int option list" where
  "passItemEnds (Inr ctx) = map li_endIndex (pendingListItems ctx)"
| "passItemEnds (Inl err) = []"

text \<open>The pending items of a pass, none for a failed pass.\<close>

fun passItems :: "error + conversionContext \<Rightarrow> pendingListItem list" where
  "passItems (Inr ctx) = pendingListItems ctx"
| "passItems (Inl err) = []"

text \<open>
  A style request over a range is no insertion and no bullet assignment, and addresses
  the two ends of the range.
\<close>

definition styleOver :: "int \<Rightarrow> int \<Rightarrow> request \<Rightarrow> bool" where
  "styleOver a b q = (\<not> isInsertText q \<and> \<not> isBullet q \<and> requestOffsets q = [a, b])"

subsection \<open>Token streams of the scenarios\<close>

text \<open>
  The token streams below are the ones markdown-it produces for the markdown in their
  names. A block token carries its tag; a text token its content; an inline token its
  source text and its children.
\<close>

definition blockToken :: "tokenType \<Rightarrow> string \<Rightarrow> token" where
  "blockToken ty tg = Token ty tg [] None None"

definition textToken :: "string \<Rightarrow> token" where
  "textToken s = Token T_text [] s None None"

definition inlineToken :: "string \<Rightarrow> token list \<Rightarrow> token" where
  "inlineToken src cs = Token T_inline [] src None (Some cs)"

text \<open>A tokenizer that knows one markdown string.\<close>

definition tokenizerFor :: "string \<Rightarrow> token list \<Rightarrow> string \<Rightarrow> token list" where
  "tokenizerFor md toks s = (if s = md then toks else [])"

text \<open>A colour parser that rejects every string, to exercise the failure of the builder.\<close>

definition rejectEveryColor :: "string \<Rightarrow> rgbColor option" where
  "rejectEveryColor h = None"

text \<open>The requests that the scenarios return.\<close>

definition boldTextRequests :: "request list" where
  "boldTextRequests =
     [InsertText \<lparr>loc_index = 1, loc_tabId = None\<rparr> ''bold text'',
      InsertText \<lparr>loc_index = 10, loc_tabId = None\<rparr> [newline, newline],
      UpdateTextStyle \<lparr>range_startIndex = 1, range_endIndex = 10, range_tabId = None\<rparr>
        (emptyTextStyle\<lparr>ts_bold := Some True\<rparr>) ''bold'']"

definition taskListRequests :: "request list" where
  "taskListRequests =
     [InsertText \<lparr>loc_index = 1, loc_tabId = None\<rparr> ''done'',
      InsertText \<lparr>loc_index = 5, loc_tabId = None\<rparr> [newline],
      InsertText \<lparr>loc_index = 6, loc_tabId = None\<rparr> ''todo'',
      InsertText \<lparr>loc_index = 10, loc_tabId = None\<rparr> [newline],
      CreateParagraphBullets \<lparr>range_startIndex = 6, range_endIndex = 10, range_tabId = None\<rparr>
        BULLET_CHECKBOX,
      CreateParagraphBullets \<lparr>range_startIndex = 1, range_endIndex = 5, range_tabId = None\<rparr>
        BULLET_CHECKBOX]"

definition nestedListRequests :: "request list" where
  "nestedListRequests =
     [InsertText \<lparr>loc_index = 1, loc_tabId = None\<rparr> [tabChar],
      InsertText \<lparr>loc_index = 2, loc_tabId = None\<rparr> ''foo'',
      InsertText \<lparr>loc_index = 5, loc_tabId = None\<rparr> [newline],
      CreateParagraphBullets \<lparr>range_startIndex = 1, range_endIndex = 5, range_tabId = None\<rparr>
        BULLET_DISC_CIRCLE_SQUARE,
      CreateParagraphBullets \<lparr>range_startIndex = 1, range_endIndex = 5, range_tabId = None\<rparr>
        BULLET_DISC_CIRCLE_SQUARE]"

text \<open>\<^verbatim>\<open>**bold text**\<close>: the emphasis rule leaves an empty text on each side of the pair.\<close>

definition boldTextMarkdown :: string where
  "boldTextMarkdown = ''**bold text**''"

definition boldTextTokens :: "token list" where
  "boldTextTokens =
     [blockToken T_paragraph_open ''p'',
      inlineToken ''**bold text**''
        [textToken [], blockToken T_strong_open ''strong'', textToken ''bold text'',
         blockToken T_strong_close ''strong'', textToken []],
      blockToken T_paragraph_close ''p'']"

text \<open>A task list of two items, \<^verbatim>\<open>- [x] done\<close> and \<^verbatim>\<open>- [ ] todo\<close> on two lines.\<close>

definition taskListMarkdown :: string where
  "taskListMarkdown = ''- [x] done'' @ [newline] @ ''- [ ] todo''"

definition taskListTokens :: "token list" where
  "taskListTokens =
     [blockToken T_bullet_list_open ''ul'',
      blockToken T_list_item_open ''li'',
      blockToken T_paragraph_open ''p'',
      inlineToken ''[x] done'' [textToken ''[x] done''],
      blockToken T_paragraph_close ''p'',
      blockToken T_list_item_close ''li'',
      blockToken T_list_item_open ''li'',
      blockToken T_paragraph_open ''p'',
      inlineToken ''[ ] todo'' [textToken ''[ ] todo''],
      blockToken T_paragraph_close ''p'',
      blockToken T_list_item_close ''li'',
      blockToken T_bullet_list_close ''ul'']"

text \<open>\<^verbatim>\<open>- - foo\<close>: a list item whose content is a nested list.\<close>

definition nestedListMarkdown :: string where
  "nestedListMarkdown = ''- - foo''"

definition nestedListTokens :: "token list" where
  "nestedListTokens =
     [blockToken T_bullet_list_open ''ul'',
      blockToken T_list_item_open ''li'',
      blockToken T_bullet_list_open ''ul'',
      blockToken T_list_item_open ''li'',
      blockToken T_paragraph_open ''p'',
      inlineToken ''foo'' [textToken ''foo''],
      blockToken T_paragraph_close ''p'',
      blockToken T_list_item_close ''li'',
      blockToken T_bullet_list_close ''ul'',
      blockToken T_list_item_close ''li'',
      blockToken T_bullet_list_close ''ul'']"

text \<open>
  A list item of two paragraphs (\<^verbatim>\<open>- a\<close>, a blank line, \<^verbatim>\<open>b\<close> indented by two
  spaces), up to the close of the first paragraph and up to the close of the second.
\<close>

definition twoParagraphItemFirst :: "token list" where
  "twoParagraphItemFirst =
     [blockToken T_bullet_list_open ''ul'',
      blockToken T_list_item_open ''li'',
      blockToken T_paragraph_open ''p'',
      inlineToken ''a'' [textToken ''a''],
      blockToken T_paragraph_close ''p'']"

definition secondParagraphTokens :: "token list" where
  "secondParagraphTokens =
     [blockToken T_paragraph_open ''p'',
      inlineToken ''b'' [textToken ''b''],
      blockToken T_paragraph_close ''p'']"

definition twoParagraphItemSecond :: "token list" where
  "twoParagraphItemSecond = twoParagraphItemFirst @ secondParagraphTokens"

text \<open>A bullet list and its first item, just opened.\<close>

definition openItemTokens :: "token list" where
  "openItemTokens = [blockToken T_bullet_list_open ''ul'', blockToken T_list_item_open ''li'']"

text \<open>The context after the pass over a token list from offset 1 (the fresh context if it fails).\<close>

definition contextAfter :: "token list \<Rightarrow> conversionContext" where
  "contextAfter toks =
     (case processTokens toks (initialContext 1 None) of
        Inr ctx \<Rightarrow> ctx
      | Inl err \<Rightarrow> initialContext 1 None)"

text \<open>An inline code span \<^verbatim>\<open>`x`\<close> in a paragraph, and a list item outside of any list.\<close>

definition codeSpanTokens :: "token list" where
  "codeSpanTokens =
     [blockToken T_paragraph_open ''p'',
      inlineToken ''`x`'' [Token T_code_inline ''code'' ''x'' None None],
      blockToken T_paragraph_close ''p'']"

definition strayItemTokens :: "token list" where
  "strayItemTokens = [blockToken T_list_item_open ''li'']"

text \<open>
  \<^verbatim>\<open>- 1. foo\<close>: a bullet item whose content is an ordered list. The two items start
  at the same offset and differ in their presets.
\<close>

definition mixedListMarkdown :: string where
  "mixedListMarkdown = ''- 1. foo''"

definition mixedListTokens :: "token list" where
  "mixedListTokens =
     [blockToken T_bullet_list_open ''ul'',
      blockToken T_list_item_open ''li'',
      blockToken T_ordered_list_open ''ol'',
      blockToken T_list_item_open ''li'',
      blockToken T_paragraph_open ''p'',
      inlineToken ''foo'' [textToken ''foo''],
      blockToken T_paragraph_close ''p'',
      blockToken T_list_item_close ''li'',
      blockToken T_ordered_list_close ''ol'',
      blockToken T_list_item_close ''li'',
      blockToken T_bullet_list_close ''ul'']"

definition mixedListRequests :: "request list" where
  "mixedListRequests =
     [InsertText \<lparr>loc_index = 1, loc_tabId = None\<rparr> [tabChar],
      InsertText \<lparr>loc_index = 2, loc_tabId = None\<rparr> ''foo'',
      InsertText \<lparr>loc_index = 5, loc_tabId = None\<rparr> [newline],
      CreateParagraphBullets \<lparr>range_startIndex = 1, range_endIndex = 5, range_tabId = None\<rparr>
        BULLET_DISC_CIRCLE_SQUARE,
      CreateParagraphBullets \<lparr>range_startIndex = 1, range_endIndex = 5, range_tabId = None\<rparr>
        NUMBERED_DECIMAL_ALPHA_ROMAN]"

text \<open>
  Two emphasis fragments opened in a paragraph, and tokens that close the outer one
  first, with a text after each close.
\<close>

definition styleOpenTokens :: "token list" where
  "styleOpenTokens =
     [blockToken T_paragraph_open ''p'', blockToken T_strong_open ''strong'',
      blockToken T_em_open ''em'']"

definition crossedCloseTokens :: "token list" where
  "crossedCloseTokens =
     [blockToken T_strong_close ''strong'', textToken ''y'', blockToken T_em_close ''em'',
      textToken ''z'']"

text \<open>
  \<^verbatim>\<open>- **[x] a**\<close>: a list item whose text stands inside strong emphasis. The emphasis
  rule leaves an empty text before the opening marker, so the first text token of the item
  is empty and the bracketed prefix is in the second.
\<close>

definition emphasisedTaskMarkdown :: string where
  "emphasisedTaskMarkdown = ''- **[x] a**''"

definition emphasisedTaskTokens :: "token list" where
  "emphasisedTaskTokens =
     [blockToken T_bullet_list_open ''ul'',
      blockToken T_list_item_open ''li'',
      blockToken T_paragraph_open ''p'',
      inlineToken ''**[x] a**''
        [textToken [], blockToken T_strong_open ''strong'', textToken ''[x] a'',
         blockToken T_strong_close ''strong'', textToken []],
      blockToken T_paragraph_close ''p'',
      blockToken T_list_item_close ''li'',
      blockToken T_bullet_list_close ''ul'']"

section \<open>Empty and blank input\<close>

lemma trim_blank:
  assumes "\<forall>c \<in> set s. isWhiteSpace c"
  shows "trim s = []"
proof -
  from assms have dw: "dropWhile isWhiteSpace s = []"
    by (simp add: dropWhile_eq_Nil_conv)
  show ?thesis unfolding trim_def dw by simp
qed

text \<open>
  Claim C10. For a markdown string that is empty or made of white space only, the
  conversion returns the empty request list and raises no error, whatever the tokenizer,
  the start offset and the tab id are.
\<close>

theorem blank_markdown_gives_no_requests:
  assumes "\<forall>c \<in> set markdown. isWhiteSpace c"
  shows "convertMarkdownToRequests parseMarkdown hexToRgbColor markdown startIdx tab = Inr []"
  using assms by (simp add: convertMarkdownToRequests_def trim_blank)

theorem blank_markdown_gives_no_requests_witness:
  "list_all isWhiteSpace (''   '' @ [newline, newline] @ ''   '') \<and>
   convertMarkdownToRequests (tokenizerFor boldTextMarkdown boldTextTokens) rejectEveryColor
     (''   '' @ [newline, newline] @ ''   '') 1 None = Inr []"
proof -
  have ws: "\<forall>c \<in> set (''   '' @ [newline, newline] @ ''   ''). isWhiteSpace c"
    by (simp add: isWhiteSpace_def)
  from blank_markdown_gives_no_requests [OF ws] ws show ?thesis
    by (simp only: list_all_iff simp_thms)
qed

section \<open>The token pass, one leaf at a time\<close>

text \<open>
  A token that is not \<^verbatim>\<open>inline\<close> runs exactly one arm of the switch. A relation
  between contexts that is reflexive and transitive and that every such token respects
  is respected by the whole pass.
\<close>

lemma processToken_leaf:
  assumes "ttype t \<noteq> T_inline" and "processToken t c = Inr c'"
  shows "(ttype t \<in> {T_table_open, T_blockquote_open, T_blockquote_close, T_other, T_link_open} \<and> c' = c)
   \<or> (ttype t = T_heading_open \<and> c' = handleHeadingOpen t c)
   \<or> (ttype t = T_heading_close \<and> c' = handleHeadingClose c)
   \<or> (ttype t = T_paragraph_open \<and> c' = handleParagraphOpen c)
   \<or> (ttype t = T_paragraph_close \<and> c' = handleParagraphClose c)
   \<or> (ttype t = T_text \<and> c' = handleTextToken t c)
   \<or> (ttype t = T_code_inline \<and> c' = handleCodeInlineToken t c)
   \<or> (ttype t \<in> {T_strong_open, T_em_open, T_s_open, T_link_open} \<and> (\<exists>f. c' = pushFormatting f c))
   \<or> (ttype t \<in> {T_strong_close, T_em_close, T_s_close, T_link_close} \<and> (\<exists>k. c' = popFormatting c k))
   \<or> (ttype t \<in> {T_bullet_list_open, T_ordered_list_open} \<and>
        (\<exists>lt. c' = c\<lparr>listStack := listStack c @ [\<lparr>ltype = lt, level = length (listStack c)\<rparr>]\<rparr>))
   \<or> (ttype t \<in> {T_bullet_list_close, T_ordered_list_close} \<and> c' = c\<lparr>listStack := butlast (listStack c)\<rparr>)
   \<or> (ttype t = T_list_item_open \<and> handleListItemOpen c = Inr c')
   \<or> (ttype t = T_list_item_close \<and> handleListItemClose c = Inr c')
   \<or> (ttype t = T_softbreak \<and> c' = insertText '' '' c)
   \<or> (ttype t = T_hardbreak \<and> c' = insertText [newline] c)
   \<or> (codeBlockArm (ttype t) \<and> c' = handleCodeBlockToken t c)
   \<or> (ttype t = T_hr \<and> c' = handleHorizontalRule c)"
proof (cases t)
  case (Token ty tg cnt ats chs)
  with assms show ?thesis
    by (cases ty) (auto simp: codeBlockArm_def tableStructure_def Let_def split: if_splits)
qed

lemma processToken_text: "ttype tok = T_text \<Longrightarrow> processToken tok c = Inr (handleTextToken tok c)"
  by (cases tok) simp

lemma processToken_code_inline:
  "ttype tok = T_code_inline \<Longrightarrow> processToken tok c = Inr (handleCodeInlineToken tok c)"
  by (cases tok) simp

lemma processTokens_rel:
  assumes Rrefl: "\<And>c. R c c"
    and Rtrans: "\<And>a b c. R a b \<Longrightarrow> R b c \<Longrightarrow> R a c"
    and leaf: "\<And>t c c'. ttype t \<noteq> T_inline \<Longrightarrow> processToken t c = Inr c' \<Longrightarrow> R c c'"
  shows "processToken t c = Inr c1 \<Longrightarrow> R c c1"
    and "processTokens ts c = Inr c2 \<Longrightarrow> R c c2"
proof (induction t c and ts c arbitrary: c1 and c2 rule: processToken_processTokens.induct)
  case (1 ty tg cnt ats chs ctx)
  show ?case
  proof (cases "ty = T_inline")
    case True
    show ?thesis
    proof (cases chs)
      case None
      with True "1.prems" show ?thesis by (simp add: Rrefl)
    next
      case (Some cs)
      with True "1.prems" have "processTokens cs ctx = Inr c1" by simp
      then show ?thesis by (rule "1.IH"[OF refl True Some])
    qed
  next
    case False
    then show ?thesis using leaf[of "Token ty tg cnt ats chs" ctx c1] "1.prems" by simp
  qed
next
  case (2 ctx)
  then show ?case by (simp add: Rrefl)
next
  case (3 t ts ctx)
  from "3.prems" obtain c' where a: "processToken t ctx = Inr c'" and b: "processTokens ts c' = Inr c2"
    by (auto split: sum.splits)
  from "3.IH"(1)[OF a] "3.IH"(2)[OF a b] show ?case by (rule Rtrans)
qed



lemma insertText_fields [simp]:
  "currentIndex (insertText t c) = currentIndex c + int (length t)"
  "insertRequests (insertText t c) =
     insertRequests c @
     [InsertText \<lparr>loc_index = currentIndex c,
                  loc_tabId = (if truthy (tabId c) then tabId c else None)\<rparr> t]"
  "formatRequests (insertText t c) = formatRequests c"
  "textRanges (insertText t c) = textRanges c"
  "formattingStack (insertText t c) = formattingStack c"
  "listStack (insertText t c) = listStack c"
  "paragraphRanges (insertText t c) = paragraphRanges c"
  "pendingListItems (insertText t c) = pendingListItems c"
  "openListItemStack (insertText t c) = openListItemStack c"
  "hrRanges (insertText t c) = hrRanges c"
  "tabId (insertText t c) = tabId c"
  "currentParagraphStart (insertText t c) = currentParagraphStart c"
  "currentHeadingLevel (insertText t c) = currentHeadingLevel c"
  by (simp_all add: insertText_def)

lemma getCurrentOpenListItem_insertText [simp]:
  "getCurrentOpenListItem (insertText t c) = getCurrentOpenListItem c"
  by (simp add: getCurrentOpenListItem_def)

lemma lastInsert_insertText [simp]:
  "lastInsertEndsWithNewline (insertText t c) = (t \<noteq> [] \<and> endsWith t [newline])"
  "lastInsertEndsWithDoubleNewline (insertText t c) = (t \<noteq> [] \<and> endsWith t [newline, newline])"
  by (simp_all add: lastInsertEndsWithNewline_def lastInsertEndsWithDoubleNewline_def lastInsertText_def)

lemma getCurrentOpenListItem_Some:
  "getCurrentOpenListItem c = Some i \<Longrightarrow> i < length (pendingListItems c)"
  by (auto simp: getCurrentOpenListItem_def Let_def split: if_splits)

subsection \<open>Every recorded offset stays inside the written range\<close>

lemma insertedLength_append [simp]:
  "insertedLength (xs @ ys) = insertedLength xs + insertedLength ys"
  by (induction xs rule: insertedLength.induct) simp_all

lemma chainedFrom_append_insert:
  "chainedFrom s (xs @ [InsertText l t]) = (chainedFrom s xs \<and> loc_index l = s + insertedLength xs)"
  by (induction s xs rule: chainedFrom.induct) auto

lemma offsetsWithin_insertText:
  assumes "offsetsWithin s c"
  shows "offsetsWithin s (insertText t c)"
  using assms unfolding offsetsWithin_def
  by (simp add: chainedFrom_append_insert) force



lemma offsetsWithin_insensitive [simp]:
  "offsetsWithin s (c\<lparr>formattingStack := fs\<rparr>) = offsetsWithin s c"
  "offsetsWithin s (c\<lparr>listStack := ls\<rparr>) = offsetsWithin s c"
  "offsetsWithin s (c\<lparr>openListItemStack := os\<rparr>) = offsetsWithin s c"
  "offsetsWithin s (c\<lparr>currentHeadingLevel := hl\<rparr>) = offsetsWithin s c"
  by (simp_all add: offsetsWithin_def)

lemma offsetsWithin_clearParagraphStart [simp]:
  "offsetsWithin s c \<Longrightarrow> offsetsWithin s (c\<lparr>currentParagraphStart := None\<rparr>)"
  by (simp add: offsetsWithin_def)

lemma offsetsWithin_currentIndex: "offsetsWithin s c \<Longrightarrow> s \<le> currentIndex c"
  by (simp add: offsetsWithin_def)

lemma offsetsWithin_paragraphStart:
  "offsetsWithin s c \<Longrightarrow> currentParagraphStart c = Some p \<Longrightarrow> s \<le> p \<and> p \<le> currentIndex c"
  by (simp add: offsetsWithin_def)

lemma offsetsWithin_item:
  "offsetsWithin s c \<Longrightarrow> i < length (pendingListItems c) \<Longrightarrow>
   s \<le> li_startIndex (pendingListItems c ! i) \<and> li_startIndex (pendingListItems c ! i) \<le> currentIndex c"
  by (simp add: offsetsWithin_def)

lemma offsetsWithin_setParagraphStart:
  "offsetsWithin s c \<Longrightarrow> s \<le> p \<Longrightarrow> p \<le> currentIndex c \<Longrightarrow>
   offsetsWithin s (c\<lparr>currentParagraphStart := Some p\<rparr>)"
  by (simp add: offsetsWithin_def)

lemma offsetsWithin_addTextRange:
  "offsetsWithin s c \<Longrightarrow> textRanges c = rs \<Longrightarrow> s \<le> a \<Longrightarrow> a \<le> b \<Longrightarrow> b \<le> currentIndex c \<Longrightarrow>
   offsetsWithin s (c\<lparr>textRanges := rs @ [\<lparr>startIndex = a, endIndex = b, formatting = f\<rparr>]\<rparr>)"
  by (auto simp: offsetsWithin_def)

lemma offsetsWithin_addParagraphRange:
  "offsetsWithin s c \<Longrightarrow> s \<le> a \<Longrightarrow> a \<le> b \<Longrightarrow> b \<le> currentIndex c \<Longrightarrow>
   offsetsWithin s (c\<lparr>paragraphRanges := paragraphRanges c @
                        [\<lparr>pr_startIndex = a, pr_endIndex = b, namedStyleType = n\<rparr>]\<rparr>)"
  by (simp add: offsetsWithin_def)

lemma offsetsWithin_addHrRange:
  "offsetsWithin s c \<Longrightarrow> hrRanges c = hs \<Longrightarrow> s \<le> a \<Longrightarrow> a \<le> b \<Longrightarrow> b \<le> currentIndex c \<Longrightarrow>
   offsetsWithin s (c\<lparr>hrRanges := hs @ [\<lparr>hr_startIndex = a, hr_endIndex = b\<rparr>]\<rparr>)"
  by (auto simp: offsetsWithin_def)

lemma offsetsWithin_setEnd:
  assumes "offsetsWithin s c" and "i < length (pendingListItems c)"
    and "li_startIndex (pendingListItems c ! i) < e" and "e \<le> currentIndex c"
  shows "offsetsWithin s (c\<lparr>pendingListItems :=
            (pendingListItems c)[i := (pendingListItems c ! i)\<lparr>li_endIndex := Some e\<rparr>]\<rparr>)"
  using assms unfolding offsetsWithin_def
  by (simp add: nth_list_update)

lemma offsetsWithin_setMarks:
  assumes "offsetsWithin s c" and "i < length (pendingListItems c)"
    and "li_startIndex item = li_startIndex (pendingListItems c ! i)"
    and "li_endIndex item = li_endIndex (pendingListItems c ! i)"
  shows "offsetsWithin s (c\<lparr>pendingListItems := (pendingListItems c)[i := item]\<rparr>)"
  using assms unfolding offsetsWithin_def
  by (simp add: nth_list_update)

lemma offsetsWithin_addItem:
  assumes "offsetsWithin s c" and "s \<le> li_startIndex item" and "li_startIndex item \<le> currentIndex c"
    and "li_endIndex item = None"
  shows "offsetsWithin s (c\<lparr>pendingListItems := pendingListItems c @ [item]\<rparr>)"
  using assms unfolding offsetsWithin_def
  by (simp add: nth_append less_Suc_eq)

lemma offsetsWithin_headingOpen:
  "offsetsWithin s c \<Longrightarrow> offsetsWithin s (handleHeadingOpen t c)"
  by (simp add: handleHeadingOpen_def offsetsWithin_setParagraphStart offsetsWithin_currentIndex
           split: option.splits)

lemma offsetsWithin_headingClose:
  assumes "offsetsWithin s c"
  shows "offsetsWithin s (handleHeadingClose c)"
  using assms offsetsWithin_paragraphStart[OF assms]
  by (simp add: handleHeadingClose_def Let_def offsetsWithin_insertText offsetsWithin_addParagraphRange
           split: option.splits)

lemma offsetsWithin_paragraphOpen:
  "offsetsWithin s c \<Longrightarrow> offsetsWithin s (handleParagraphOpen c)"
  by (simp add: handleParagraphOpen_def offsetsWithin_setParagraphStart offsetsWithin_currentIndex)

lemma offsetsWithin_paragraphClose:
  assumes "offsetsWithin s c"
  shows "offsetsWithin s (handleParagraphClose c)"
proof -
  define c1 where "c1 = (if length (listStack c) = 0 then insertText [newline, newline] c
                  else if \<not> lastInsertEndsWithNewline c then insertText [newline] c
                  else c)"
  have c1: "offsetsWithin s c1"
    using assms by (simp add: c1_def offsetsWithin_insertText)
  show ?thesis
    unfolding handleParagraphClose_def Let_def c1_def[symmetric]
    using c1
    by (auto split: option.splits intro!: offsetsWithin_setEnd offsetsWithin_clearParagraphStart
             dest: getCurrentOpenListItem_Some)
qed


lemma offsetsWithin_listItemOpen:
  assumes "offsetsWithin s c" and "handleListItemOpen c = Inr c'"
  shows "offsetsWithin s c'"
proof -
  define c1 where "c1 = (if level (last (listStack c)) > 0
                          then insertText (replicate (level (last (listStack c))) tabChar) c else c)"
  have c1: "offsetsWithin s c1" and le: "currentIndex c \<le> currentIndex c1"
    using assms(1) by (simp_all add: c1_def offsetsWithin_insertText)
  from assms(2) have "c' = c1\<lparr>pendingListItems := pendingListItems c1 @
        [\<lparr>li_startIndex = currentIndex c, li_endIndex = None,
          nestingLevel = level (last (listStack c)),
          bulletPresetOf = (if ltype (last (listStack c)) = Ordered
                            then NUMBERED_DECIMAL_ALPHA_ROMAN else BULLET_DISC_CIRCLE_SQUARE),
          taskPrefixProcessed = False\<rparr>],
        openListItemStack := openListItemStack c1 @ [length (pendingListItems c1)]\<rparr>"
    by (simp add: handleListItemOpen_def Let_def c1_def split: if_splits)
  then show ?thesis
    using c1 le offsetsWithin_currentIndex[OF assms(1)]
    by (simp add: offsetsWithin_addItem)
qed

lemma offsetsWithin_listItemClose:
  assumes "offsetsWithin s c" and "handleListItemClose c = Inr c'"
  shows "offsetsWithin s c'"
proof (cases "openListItemStack c = []")
  case True
  with assms show ?thesis by (simp add: handleListItemClose_def)
next
  case False
  define c1 where "c1 = c\<lparr>openListItemStack := butlast (openListItemStack c)\<rparr>"
  define i where "i = last (openListItemStack c)"
  define e where "e = (if lastInsertEndsWithNewline c1 then currentIndex c1 - 1 else currentIndex c1)"
  define c2 where "c2 = (if li_endIndex (pendingListItems c1 ! i) = None \<and> e > li_startIndex (pendingListItems c1 ! i)
                         then c1\<lparr>pendingListItems := (pendingListItems c1)
                                     [i := (pendingListItems c1 ! i)\<lparr>li_endIndex := Some e\<rparr>]\<rparr>
                         else c1)"
  have c1: "offsetsWithin s c1" using assms(1) by (simp add: c1_def)
  from assms(2) False have i: "i < length (pendingListItems c1)"
    by (auto simp: handleListItemClose_def Let_def c1_def i_def split: if_splits)
  have "e \<le> currentIndex c1" by (simp add: e_def)
  with c1 i have c2: "offsetsWithin s c2"
    by (auto simp: c2_def intro!: offsetsWithin_setEnd)
  have "handleListItemClose c = Inr (if \<not> lastInsertEndsWithNewline c2 then insertText [newline] c2 else c2)"
    unfolding handleListItemClose_def Let_def c1_def[symmetric] i_def[symmetric] e_def[symmetric]
    using False i by (simp add: c2_def)
  with assms(2) have "c' = (if \<not> lastInsertEndsWithNewline c2 then insertText [newline] c2 else c2)"
    by simp
  with c2 show ?thesis by (simp add: offsetsWithin_insertText)
qed

lemma stripTaskPrefix_offsetsWithin:
  assumes "offsetsWithin s c" and "stripTaskPrefix txt c = (txt', c1)"
  shows "offsetsWithin s c1 \<and> currentIndex c1 = currentIndex c"
  using assms
  by (auto simp: stripTaskPrefix_def Let_def split: option.splits if_splits
           intro!: offsetsWithin_setMarks dest: getCurrentOpenListItem_Some)

lemma offsetsWithin_text:
  assumes "offsetsWithin s c"
  shows "offsetsWithin s (handleTextToken t c)"
proof (cases "content t = []")
  case True
  with assms show ?thesis by (simp add: handleTextToken_def)
next
  case False
  obtain rest c1 where st: "stripTaskPrefix (content t) c = (rest, c1)" by (cases "stripTaskPrefix (content t) c")
  from stripTaskPrefix_offsetsWithin[OF assms st] have c1: "offsetsWithin s c1" by simp
  then have "offsetsWithin s (insertText rest c1)" by (rule offsetsWithin_insertText)
  with c1 show ?thesis
    using False st offsetsWithin_currentIndex[OF c1]
    by (simp add: handleTextToken_def Let_def offsetsWithin_addTextRange)
qed

lemma offsetsWithin_codeInline:
  "offsetsWithin s c \<Longrightarrow> offsetsWithin s (handleCodeInlineToken t c)"
  by (simp add: handleCodeInlineToken_def popFormatting_def pushFormatting_def offsetsWithin_text)

lemma offsetsWithin_codeLine:
  assumes "offsetsWithin s c"
  shows "offsetsWithin s (codeLine l c)"
  using assms offsetsWithin_currentIndex[OF assms]
  by (simp add: codeLine_def Let_def offsetsWithin_insertText offsetsWithin_addTextRange)

lemma offsetsWithin_codeLines:
  "offsetsWithin s c \<Longrightarrow> offsetsWithin s (codeLines ls c)"
  by (induction ls arbitrary: c) (simp_all add: offsetsWithin_codeLine)

lemma offsetsWithin_codeBlock:
  "offsetsWithin s c \<Longrightarrow> offsetsWithin s (handleCodeBlockToken t c)"
  by (simp add: handleCodeBlockToken_def Let_def offsetsWithin_codeLines offsetsWithin_insertText)

lemma offsetsWithin_horizontalRule:
  assumes "offsetsWithin s c"
  shows "offsetsWithin s (handleHorizontalRule c)"
proof -
  define c1 where "c1 = (if \<not> lastInsertEndsWithNewline c then insertText [newline] c else c)"
  have c1: "offsetsWithin s c1" using assms by (simp add: c1_def offsetsWithin_insertText)
  show ?thesis
    unfolding handleHorizontalRule_def Let_def c1_def[symmetric]
    using c1 offsetsWithin_currentIndex[OF c1]
    by (simp add: offsetsWithin_insertText offsetsWithin_addHrRange)
qed

lemma offsetsWithin_leaf:
  assumes "ttype t \<noteq> T_inline" and "processToken t c = Inr c'" and "offsetsWithin s c"
  shows "offsetsWithin s c'"
  using processToken_leaf[OF assms(1,2)] assms(3)
  apply (elim disjE conjE exE)
  apply (simp_all add: offsetsWithin_headingOpen offsetsWithin_headingClose offsetsWithin_paragraphOpen
        offsetsWithin_paragraphClose offsetsWithin_text offsetsWithin_codeInline
        pushFormatting_def popFormatting_def
        offsetsWithin_insertText offsetsWithin_codeBlock offsetsWithin_horizontalRule)
  apply (blast intro: offsetsWithin_listItemOpen offsetsWithin_listItemClose)+
  done

lemma offsetsWithin_pass:
  assumes "processTokens ts c = Inr c'" and "offsetsWithin s c"
  shows "offsetsWithin s c'"
proof -
  have "offsetsWithin s c \<longrightarrow> offsetsWithin s c'"
    by (rule processTokens_rel(2)[where R = "\<lambda>c c'. offsetsWithin s c \<longrightarrow> offsetsWithin s c'", OF _ _ _ assms(1)])
       (auto intro: offsetsWithin_leaf)
  with assms(2) show ?thesis by simp
qed


subsection \<open>The requests of the finalizer\<close>

lemma buildUpdateTextStyleRequest_shape:
  assumes "buildUpdateTextStyleRequest hex s e style tab = Inr (Some rq)"
  shows "\<exists>st fs. fst rq = UpdateTextStyle (mkRange s e tab) st fs"
proof -
  have pick: "\<And>P v. ((if P then Inr None else Inr (Some v)) = (Inr (Some rq) :: error + (request \<times> string list) option)) = (\<not> P \<and> v = rq)"
    by auto
  from assms show ?thesis
    unfolding buildUpdateTextStyleRequest_def Let_def
    by (auto simp: pick split: option.splits sum.splits)
qed

lemma textRangeRequests_shape:
  assumes "textRangeRequests hex tab r = Inr reqs"
  shows "\<forall>q \<in> set reqs. styleOver (startIndex r) (endIndex r) q"
  using assms unfolding textRangeRequests_def Let_def
  by (auto simp: styleOver_def mkRange_def split: if_splits sum.splits option.splits
           dest!: buildUpdateTextStyleRequest_shape)

lemma textRangesRequests_shape:
  assumes "textRangesRequests hex tab rs = Inr reqs"
  shows "\<forall>q \<in> set reqs. \<exists>r \<in> set rs. styleOver (startIndex r) (endIndex r) q"
  using assms
proof (induction rs arbitrary: reqs)
  case Nil
  then show ?case by simp
next
  case (Cons r rs)
  from Cons.prems obtain a b where a: "textRangeRequests hex tab r = Inr a"
    and b: "textRangesRequests hex tab rs = Inr b" and reqs: "reqs = a @ b"
    by (auto split: sum.splits)
  have "\<forall>q \<in> set a. \<exists>x \<in> set (r # rs). styleOver (startIndex x) (endIndex x) q"
    using textRangeRequests_shape[OF a] by simp
  moreover have "\<forall>q \<in> set b. \<exists>x \<in> set (r # rs). styleOver (startIndex x) (endIndex x) q"
    using Cons.IH[OF b] by simp
  ultimately show ?case unfolding reqs by (simp add: ball_Un)
qed

lemma buildPara_named:
  "buildUpdateParagraphStyleRequest a b
       \<lparr>parg_alignment = None, parg_indentStart = None, parg_indentEnd = None,
        parg_spaceAbove = None, parg_spaceBelow = None,
        parg_namedStyleType = Some n, parg_keepWithNext = None\<rparr> tab =
   Some (UpdateParagraphStyle (mkRange a b tab)
           \<lparr>ps_alignment = None, ps_indentStart = None, ps_indentEnd = None, ps_spaceAbove = None,
            ps_spaceBelow = None, ps_namedStyleType = Some n, ps_keepWithNext = None,
            ps_borderBottom = None\<rparr> ''namedStyleType'', [''namedStyleType''])"
  apply (simp add: buildUpdateParagraphStyleRequest_def Let_def)
  done

lemma paragraphRangeRequests_shape:
  "\<forall>q \<in> set (paragraphRangeRequests tab p). styleOver (pr_startIndex p) (pr_endIndex p) q"
proof (cases "namedStyleType p")
  case None
  then show ?thesis by (simp add: paragraphRangeRequests_def)
next
  case (Some n)
  have "paragraphRangeRequests tab p =
     (if n \<noteq> [] then [UpdateParagraphStyle (mkRange (pr_startIndex p) (pr_endIndex p) tab)
           \<lparr>ps_alignment = None, ps_indentStart = None, ps_indentEnd = None, ps_spaceAbove = None,
            ps_spaceBelow = None, ps_namedStyleType = Some n, ps_keepWithNext = None,
            ps_borderBottom = None\<rparr> ''namedStyleType''] else [])"
    unfolding paragraphRangeRequests_def Some
    apply (subst buildPara_named)
    apply simp
    done
  then show ?thesis
    by (simp add: styleOver_def mkRange_def)
qed

lemma hrRangeRequest_shape:
  "styleOver (hr_startIndex h) (hr_endIndex h) (hrRangeRequest tab h)"
  by (simp add: hrRangeRequest_def styleOver_def mkRange_def)

lemma listItemRequests_shape:
  "listItemRequests tab item =
     (if hasRange item
      then [CreateParagraphBullets (mkRange (li_startIndex item) (the (li_endIndex item)) tab)
              (bulletPresetOf item)]
      else [])"
  by (simp add: listItemRequests_def hasRange_def split: option.splits)

lemma set_listItemsForFormatting:
  "set (listItemsForFormatting items) = {item \<in> set items. hasRange item}"
  by (auto simp: listItemsForFormatting_def)


subsection \<open>Fields that the pass never writes\<close>

lemma codeLines_frame [simp]:
  "formatRequests (codeLines ls c) = formatRequests c"
  "tabId (codeLines ls c) = tabId c"
  by (induction ls arbitrary: c) (simp_all add: codeLine_def Let_def)

lemma stripTaskPrefix_frame:
  assumes "stripTaskPrefix x c = (y, c1)"
  shows "formatRequests c1 = formatRequests c \<and> tabId c1 = tabId c \<and>
         currentIndex c1 = currentIndex c \<and> insertRequests c1 = insertRequests c \<and>
         textRanges c1 = textRanges c \<and> formattingStack c1 = formattingStack c \<and>
         listStack c1 = listStack c \<and> openListItemStack c1 = openListItemStack c"
  using assms
  by (auto simp: stripTaskPrefix_def Let_def split: option.splits if_splits)

lemma handleTextToken_frame [simp]:
  "formatRequests (handleTextToken t c) = formatRequests c"
  "tabId (handleTextToken t c) = tabId c"
proof -
  obtain y c1 where st: "stripTaskPrefix (content t) c = (y, c1)"
    by (cases "stripTaskPrefix (content t) c")
  from stripTaskPrefix_frame[OF st]
  show "formatRequests (handleTextToken t c) = formatRequests c"
    and "tabId (handleTextToken t c) = tabId c"
    by (simp_all add: handleTextToken_def Let_def st)
qed

lemma handlers_frame [simp]:
  "formatRequests (handleHeadingOpen t c) = formatRequests c"
  "tabId (handleHeadingOpen t c) = tabId c"
  "formatRequests (handleHeadingClose c) = formatRequests c"
  "tabId (handleHeadingClose c) = tabId c"
  "formatRequests (handleParagraphOpen c) = formatRequests c"
  "tabId (handleParagraphOpen c) = tabId c"
  "formatRequests (handleParagraphClose c) = formatRequests c"
  "tabId (handleParagraphClose c) = tabId c"
  "formatRequests (handleCodeInlineToken t c) = formatRequests c"
  "tabId (handleCodeInlineToken t c) = tabId c"
  "formatRequests (pushFormatting f c) = formatRequests c"
  "tabId (pushFormatting f c) = tabId c"
  "formatRequests (popFormatting c k) = formatRequests c"
  "tabId (popFormatting c k) = tabId c"
  "formatRequests (handleCodeBlockToken t c) = formatRequests c"
  "tabId (handleCodeBlockToken t c) = tabId c"
  "formatRequests (handleHorizontalRule c) = formatRequests c"
  "tabId (handleHorizontalRule c) = tabId c"
  by (simp_all add: handleHeadingOpen_def handleHeadingClose_def handleParagraphOpen_def
        handleParagraphClose_def handleCodeInlineToken_def pushFormatting_def popFormatting_def
        handleCodeBlockToken_def handleHorizontalRule_def Let_def split: option.splits)

lemma handleListItemOpen_frame:
  "handleListItemOpen c = Inr c' \<Longrightarrow> formatRequests c' = formatRequests c \<and> tabId c' = tabId c"
  by (auto simp: handleListItemOpen_def Let_def split: if_splits)

lemma handleListItemClose_frame:
  "handleListItemClose c = Inr c' \<Longrightarrow> formatRequests c' = formatRequests c \<and> tabId c' = tabId c"
  by (auto simp: handleListItemClose_def Let_def split: if_splits)

lemma frame_leaf:
  assumes "ttype t \<noteq> T_inline" and "processToken t c = Inr c'"
  shows "formatRequests c' = formatRequests c \<and> tabId c' = tabId c"
  using processToken_leaf[OF assms]
  apply (elim disjE conjE exE)
  apply (simp_all add: handleListItemOpen_frame handleListItemClose_frame)
  done

lemma frame_pass:
  assumes "processTokens ts c = Inr c'"
  shows "formatRequests c' = formatRequests c \<and> tabId c' = tabId c"
  by (rule processTokens_rel(2)[where R = "\<lambda>c c'. formatRequests c' = formatRequests c \<and> tabId c' = tabId c",
        OF _ _ _ assms])
     (auto dest: frame_leaf)


subsection \<open>From the pass to the returned list\<close>

lemma insertedLength_nonneg: "0 \<le> insertedLength reqs"
  by (induction reqs rule: insertedLength.induct) simp_all

lemma chainedFrom_offsets:
  "chainedFrom s reqs \<Longrightarrow> r \<in> set reqs \<Longrightarrow> i \<in> set (requestOffsets r) \<Longrightarrow>
   s \<le> i \<and> i \<le> s + insertedLength reqs"
proof (induction s reqs rule: chainedFrom.induct)
  case (2 off l t rs)
  show ?case
  proof (cases "r = InsertText l t")
    case True
    with "2.prems" insertedLength_nonneg[of rs] show ?thesis by simp
  next
    case False
    with "2.prems" have "chainedFrom (off + int (length t)) rs" and "r \<in> set rs" by simp_all
    from "2.IH"[OF this "2.prems"(3)] show ?thesis by simp
  qed
qed simp_all

lemma chainedFrom_inserts: "chainedFrom s reqs \<Longrightarrow> \<forall>r \<in> set reqs. isInsertText r"
  by (induction s reqs rule: chainedFrom.induct) simp_all

lemma insertedLength_noInserts:
  "\<forall>r \<in> set reqs. \<not> isInsertText r \<Longrightarrow> insertedLength reqs = 0"
  by (induction reqs rule: insertedLength.induct) simp_all

lemma offsetsWithin_initialContext: "offsetsWithin s (initialContext s tab)"
  by (simp add: offsetsWithin_def initialContext_def)

text \<open>What a successful \<open>tryBlock\<close> returns, from a context with no format request yet.\<close>

lemma tryBlock_result:
  assumes "tryBlock hex toks c0 = Inr ops" and "formatRequests c0 = []"
  shows "\<exists>c styles. processTokens toks c0 = Inr c \<and>
           textRangesRequests hex (tabId c) (textRanges c) = Inr styles \<and>
           ops = insertRequests c @ styles @
                 concat (map (paragraphRangeRequests (tabId c)) (paragraphRanges c)) @
                 map (hrRangeRequest (tabId c)) (hrRanges c) @
                 concat (map (listItemRequests (tabId c)) (listItemsForFormatting (pendingListItems c)))"
proof -
  from assms(1) obtain c c2 where p: "processTokens toks c0 = Inr c"
    and f: "finalizeFormatting hex c = Inr c2" and ops: "ops = insertRequests c2 @ formatRequests c2"
    by (auto simp: tryBlock_def split: sum.splits)
  from frame_pass[OF p] assms(2) have fr: "formatRequests c = []" by simp
  from f obtain styles where st: "textRangesRequests hex (tabId c) (textRanges c) = Inr styles"
    by (auto simp: finalizeFormatting_def split: sum.splits)
  with f fr ops p show ?thesis
    by (auto simp: finalizeFormatting_def)
qed

lemma convert_result:
  assumes "convertMarkdownToRequests parseMarkdown hex markdown s tab = Inr ops"
  shows "ops = [] \<or> tryBlock hex (parseMarkdown markdown) (initialContext s tab) = Inr ops"
  using assms
  by (auto simp: convertMarkdownToRequests_def catchBlock_def Let_def split: if_splits sum.splits error.splits)

lemma finalized_offsets:
  assumes ow: "offsetsWithin s c"
    and st: "textRangesRequests hex tab (textRanges c) = Inr styles"
    and q: "q \<in> set (styles @
                 concat (map (paragraphRangeRequests tab) (paragraphRanges c)) @
                 map (hrRangeRequest tab) (hrRanges c) @
                 concat (map (listItemRequests tab) (listItemsForFormatting (pendingListItems c))))"
  shows "\<not> isInsertText q \<and> (\<forall>i \<in> set (requestOffsets q). s \<le> i \<and> i \<le> currentIndex c)"
proof -
  consider (a) "q \<in> set styles"
    | (b) p where "p \<in> set (paragraphRanges c)" "q \<in> set (paragraphRangeRequests tab p)"
    | (h) h where "h \<in> set (hrRanges c)" "q = hrRangeRequest tab h"
    | (l) item where "item \<in> set (pendingListItems c)" "hasRange item" "q \<in> set (listItemRequests tab item)"
    using q by (auto simp: set_listItemsForFormatting)
  then show ?thesis
  proof cases
    case a
    with textRangesRequests_shape[OF st] obtain r where "r \<in> set (textRanges c)"
      "styleOver (startIndex r) (endIndex r) q" by blast
    with ow show ?thesis by (auto simp: offsetsWithin_def styleOver_def)
  next
    case b
    with paragraphRangeRequests_shape[of tab p] have "styleOver (pr_startIndex p) (pr_endIndex p) q" by blast
    with ow b(1) show ?thesis by (auto simp: offsetsWithin_def styleOver_def)
  next
    case h
    with hrRangeRequest_shape[of h tab] have "styleOver (hr_startIndex h) (hr_endIndex h) q" by simp
    with ow h(1) show ?thesis by (auto simp: offsetsWithin_def styleOver_def)
  next
    case l
    from l(1) obtain i where i: "i < length (pendingListItems c)" "item = pendingListItems c ! i"
      by (auto simp: in_set_conv_nth)
    from l(2) obtain e where e: "li_endIndex item = Some e"
      by (auto simp: hasRange_def split: option.splits)
    from ow i e have "s \<le> li_startIndex item \<and> li_startIndex item \<le> currentIndex c \<and>
        li_startIndex item < e \<and> e \<le> currentIndex c"
      by (simp add: offsetsWithin_def)
    with l(2,3) e show ?thesis
      by (auto simp: listItemRequests_shape mkRange_def)
  qed
qed


subsection \<open>The scenarios, evaluated\<close>

lemma boldText_conversion:
  "convertMarkdownToRequests (tokenizerFor boldTextMarkdown boldTextTokens) hexToRgbColor
     boldTextMarkdown 1 None = Inr boldTextRequests"
  by code_simp

lemma taskList_conversion:
  "convertMarkdownToRequests (tokenizerFor taskListMarkdown taskListTokens) hexToRgbColor
     taskListMarkdown 1 None = Inr taskListRequests"
  by code_simp

section \<open>Offsets\<close>

text \<open>
  Claim C1. An insertion is located at the current offset and advances it by the length
  of its text. So after the token pass of any token list from a fresh context the
  insertions are chained from the start offset and the current offset is the start offset
  plus the total length of the inserted texts; and in a returned request list the
  insertions are chained from the start offset, and every offset that a request addresses
  (the location of an insertion, the two ends of a range) lies between the start offset
  and the final offset, the start offset plus the total inserted length.
\<close>

theorem offsets_chained_and_within_written_range:
  "(\<forall>text c.
      insertRequests (insertText text c) =
        insertRequests c @
        [InsertText \<lparr>loc_index = currentIndex c,
                     loc_tabId = (if truthy (tabId c) then tabId c else None)\<rparr> text] \<and>
      currentIndex (insertText text c) = currentIndex c + int (length text)) \<and>
   (\<forall>toks c. processTokens toks (initialContext s tab) = Inr c \<longrightarrow>
      chainedFrom s (insertRequests c) \<and>
      currentIndex c = s + insertedLength (insertRequests c)) \<and>
   (\<forall>ops. convertMarkdownToRequests parseMarkdown hexToRgbColor markdown s tab = Inr ops \<longrightarrow>
      chainedFrom s (filter isInsertText ops) \<and>
      (\<forall>op \<in> set ops. \<forall>i \<in> set (requestOffsets op). s \<le> i \<and> i \<le> s + insertedLength ops))"
proof (intro conjI allI impI)
  fix toks c
  assume "processTokens toks (initialContext s tab) = Inr c"
  from offsetsWithin_pass[OF this offsetsWithin_initialContext]
  show "chainedFrom s (insertRequests c)" and "currentIndex c = s + insertedLength (insertRequests c)"
    by (simp_all add: offsetsWithin_def)
next
  fix ops
  assume conv: "convertMarkdownToRequests parseMarkdown hexToRgbColor markdown s tab = Inr ops"
  have "chainedFrom s (filter isInsertText ops) \<and>
      (\<forall>op \<in> set ops. \<forall>i \<in> set (requestOffsets op). s \<le> i \<and> i \<le> s + insertedLength ops)"
  proof (cases "ops = []")
    case True
    then show ?thesis by simp
  next
    case False
    with convert_result[OF conv]
    have "tryBlock hexToRgbColor (parseMarkdown markdown) (initialContext s tab) = Inr ops" by simp
    from tryBlock_result[OF this] obtain c styles where
      p: "processTokens (parseMarkdown markdown) (initialContext s tab) = Inr c"
      and st: "textRangesRequests hexToRgbColor (tabId c) (textRanges c) = Inr styles"
      and ops0: "ops = insertRequests c @ (styles @
                 concat (map (paragraphRangeRequests (tabId c)) (paragraphRanges c)) @
                 map (hrRangeRequest (tabId c)) (hrRanges c) @
                 concat (map (listItemRequests (tabId c)) (listItemsForFormatting (pendingListItems c))))"
      by (auto simp: initialContext_def)
    define fmt where "fmt = styles @
                 concat (map (paragraphRangeRequests (tabId c)) (paragraphRanges c)) @
                 map (hrRangeRequest (tabId c)) (hrRanges c) @
                 concat (map (listItemRequests (tabId c)) (listItemsForFormatting (pendingListItems c)))"
    from ops0 have ops: "ops = insertRequests c @ fmt" by (simp add: fmt_def)
    have ow: "offsetsWithin s c"
      by (rule offsetsWithin_pass[OF p offsetsWithin_initialContext])
    then have ch: "chainedFrom s (insertRequests c)"
      and ins: "\<forall>r \<in> set (insertRequests c). isInsertText r"
      and cur: "s + insertedLength (insertRequests c) = currentIndex c"
      by (simp_all add: offsetsWithin_def)
    have fmt: "\<forall>q \<in> set fmt. \<not> isInsertText q \<and> (\<forall>i \<in> set (requestOffsets q). s \<le> i \<and> i \<le> currentIndex c)"
      unfolding fmt_def using finalized_offsets[OF ow st] by blast
    then have nofmt: "filter isInsertText fmt = []" and len0: "insertedLength fmt = 0"
      by (simp_all add: filter_empty_conv insertedLength_noInserts)
    have "filter isInsertText ops = insertRequests c"
      unfolding ops filter_append nofmt using ins by simp
    moreover have len: "insertedLength ops = insertedLength (insertRequests c)"
      unfolding ops insertedLength_append len0 by simp
    moreover have "\<forall>op \<in> set (insertRequests c). \<forall>i \<in> set (requestOffsets op).
        s \<le> i \<and> i \<le> s + insertedLength (insertRequests c)"
      using chainedFrom_offsets[OF ch] by blast
    ultimately show ?thesis
      using ch fmt cur unfolding ops set_append by (simp add: ball_Un)
  qed
  then show "chainedFrom s (filter isInsertText ops)"
    and "\<forall>op \<in> set ops. \<forall>i \<in> set (requestOffsets op). s \<le> i \<and> i \<le> s + insertedLength ops"
    by simp_all
qed simp_all

theorem offsets_chained_and_within_written_range_witness:
  "convertMarkdownToRequests (tokenizerFor boldTextMarkdown boldTextTokens) rejectEveryColor
     boldTextMarkdown 1 None = Inr boldTextRequests \<and>
   chainedFrom 1 (filter isInsertText boldTextRequests) \<and>
   list_all (\<lambda>op. list_all (\<lambda>i. 1 \<le> i \<and> i \<le> 1 + insertedLength boldTextRequests)
                      (requestOffsets op)) boldTextRequests"
proof -
  have "chainedFrom 1 (filter isInsertText boldTextRequests) \<and>
        (\<forall>op \<in> set boldTextRequests. \<forall>i \<in> set (requestOffsets op).
           1 \<le> i \<and> i \<le> 1 + insertedLength boldTextRequests)"
    using offsets_chained_and_within_written_range
            [of 1 None "tokenizerFor boldTextMarkdown boldTextTokens" rejectEveryColor boldTextMarkdown]
          boldText_conversion [of rejectEveryColor]
    by blast
  then show ?thesis
    using boldText_conversion [of rejectEveryColor] by (simp add: list_all_iff)
qed


section \<open>The bold text scenario\<close>

lemma convert_depends_on_tokens:
  "convertMarkdownToRequests parseMarkdown hexToRgbColor markdown s tab =
   convertMarkdownToRequests (tokenizerFor markdown (parseMarkdown markdown)) hexToRgbColor markdown s tab"
  by (simp add: convertMarkdownToRequests_def tokenizerFor_def)

text \<open>
  Claim C4 says that \<^verbatim>\<open>**bold text**\<close> at offset 1 yields exactly one insertion. The
  conversion yields two: the text at offset 1 and, from the close of the paragraph, the
  blank-line terminator of two line feeds at offset 10.
\<close>

theorem bold_text_has_two_insertions:
  "insertTexts (resultRequests
     (convertMarkdownToRequests (tokenizerFor boldTextMarkdown boldTextTokens) rejectEveryColor
        boldTextMarkdown 1 None)) =
     [(1, ''bold text''), (10, [newline, newline])] \<and>
   length (insertTexts (resultRequests
     (convertMarkdownToRequests (tokenizerFor boldTextMarkdown boldTextTokens) rejectEveryColor
        boldTextMarkdown 1 None))) \<noteq> 1"
  by (simp add: boldText_conversion boldTextRequests_def)

text \<open>
  Claim C4, amended. For \<^verbatim>\<open>**bold text**\<close> at offset 1 with no tab id the returned
  list is: the insertion of \<^verbatim>\<open>bold text\<close> at offset 1, the insertion of the paragraph
  terminator (two line feeds) at offset 10, and one text style request over the range
  from 1 to 10 that sets bold to true and no other field.
\<close>

theorem bold_text_requests:
  assumes "parseMarkdown boldTextMarkdown = boldTextTokens"
  shows "convertMarkdownToRequests parseMarkdown hexToRgbColor boldTextMarkdown 1 None =
           Inr [InsertText \<lparr>loc_index = 1, loc_tabId = None\<rparr> ''bold text'',
                InsertText \<lparr>loc_index = 10, loc_tabId = None\<rparr> [newline, newline],
                UpdateTextStyle \<lparr>range_startIndex = 1, range_endIndex = 10, range_tabId = None\<rparr>
                  \<lparr>ts_bold = Some True, ts_italic = None, ts_underline = None,
                   ts_strikethrough = None, ts_fontSize = None, ts_weightedFontFamily = None,
                   ts_foregroundColor = None, ts_backgroundColor = None, ts_link = None\<rparr>
                  ''bold'']"
  using assms boldText_conversion [of hexToRgbColor]
        convert_depends_on_tokens [of parseMarkdown hexToRgbColor boldTextMarkdown 1 None]
  by (simp add: boldTextRequests_def emptyTextStyle_def)

theorem bold_text_requests_witness:
  "tokenizerFor boldTextMarkdown boldTextTokens boldTextMarkdown = boldTextTokens \<and>
   convertMarkdownToRequests (tokenizerFor boldTextMarkdown boldTextTokens) rejectEveryColor
     boldTextMarkdown 1 None =
           Inr [InsertText \<lparr>loc_index = 1, loc_tabId = None\<rparr> ''bold text'',
                InsertText \<lparr>loc_index = 10, loc_tabId = None\<rparr> [newline, newline],
                UpdateTextStyle \<lparr>range_startIndex = 1, range_endIndex = 10, range_tabId = None\<rparr>
                  \<lparr>ts_bold = Some True, ts_italic = None, ts_underline = None,
                   ts_strikethrough = None, ts_fontSize = None, ts_weightedFontFamily = None,
                   ts_foregroundColor = None, ts_backgroundColor = None, ts_link = None\<rparr>
                  ''bold'']"
proof -
  have tk: "tokenizerFor boldTextMarkdown boldTextTokens boldTextMarkdown = boldTextTokens"
    by (simp add: tokenizerFor_def)
  have "convertMarkdownToRequests (tokenizerFor boldTextMarkdown boldTextTokens) rejectEveryColor
          boldTextMarkdown 1 None =
           Inr [InsertText \<lparr>loc_index = 1, loc_tabId = None\<rparr> ''bold text'',
                InsertText \<lparr>loc_index = 10, loc_tabId = None\<rparr> [newline, newline],
                UpdateTextStyle \<lparr>range_startIndex = 1, range_endIndex = 10, range_tabId = None\<rparr>
                  \<lparr>ts_bold = Some True, ts_italic = None, ts_underline = None,
                   ts_strikethrough = None, ts_fontSize = None, ts_weightedFontFamily = None,
                   ts_foregroundColor = None, ts_backgroundColor = None, ts_link = None\<rparr>
                  ''bold'']"
    by (rule bold_text_requests
              [of "tokenizerFor boldTextMarkdown boldTextTokens" rejectEveryColor, OF tk])
  with tk show ?thesis by (rule conjI)
qed


section \<open>Pending list items along the pass\<close>

subsection \<open>The current offset never decreases; who writes the pending items\<close>

lemma codeLines_pending [simp]:
  "pendingListItems (codeLines ls c) = pendingListItems c"
  "openListItemStack (codeLines ls c) = openListItemStack c"
  "listStack (codeLines ls c) = listStack c"
  by (induction ls arbitrary: c) (simp_all add: codeLine_def Let_def)

lemma codeLines_currentIndex: "currentIndex c \<le> currentIndex (codeLines ls c)"
proof (induction ls arbitrary: c)
  case (Cons l ls)
  have "currentIndex c \<le> currentIndex (codeLine l c)" by (simp add: codeLine_def Let_def)
  also have "\<dots> \<le> currentIndex (codeLines ls (codeLine l c))" by (rule Cons.IH)
  finally show ?case by simp
qed simp

lemma handlers_pending [simp]:
  "pendingListItems (handleHeadingOpen t c) = pendingListItems c"
  "pendingListItems (handleHeadingClose c) = pendingListItems c"
  "pendingListItems (handleParagraphOpen c) = pendingListItems c"
  "pendingListItems (pushFormatting f c) = pendingListItems c"
  "pendingListItems (popFormatting c k) = pendingListItems c"
  "pendingListItems (handleCodeBlockToken t c) = pendingListItems c"
  "pendingListItems (handleHorizontalRule c) = pendingListItems c"
  "openListItemStack (handleHeadingOpen t c) = openListItemStack c"
  "openListItemStack (handleHeadingClose c) = openListItemStack c"
  "openListItemStack (handleParagraphOpen c) = openListItemStack c"
  "openListItemStack (handleParagraphClose c) = openListItemStack c"
  "openListItemStack (pushFormatting f c) = openListItemStack c"
  "openListItemStack (popFormatting c k) = openListItemStack c"
  "openListItemStack (handleCodeBlockToken t c) = openListItemStack c"
  "openListItemStack (handleHorizontalRule c) = openListItemStack c"
  "listStack (handleHeadingOpen t c) = listStack c"
  "listStack (handleHeadingClose c) = listStack c"
  "listStack (handleParagraphOpen c) = listStack c"
  "listStack (handleParagraphClose c) = listStack c"
  "listStack (pushFormatting f c) = listStack c"
  "listStack (popFormatting c k) = listStack c"
  "listStack (handleCodeBlockToken t c) = listStack c"
  "listStack (handleHorizontalRule c) = listStack c"
  by (simp_all add: handleHeadingOpen_def handleHeadingClose_def handleParagraphOpen_def
        handleParagraphClose_def pushFormatting_def popFormatting_def
        handleCodeBlockToken_def handleHorizontalRule_def Let_def split: option.splits)

lemma handlers_currentIndex [simp]:
  "currentIndex c \<le> currentIndex (handleHeadingOpen t c)"
  "currentIndex c \<le> currentIndex (handleHeadingClose c)"
  "currentIndex c \<le> currentIndex (handleParagraphOpen c)"
  "currentIndex c \<le> currentIndex (handleParagraphClose c)"
  "currentIndex c \<le> currentIndex (pushFormatting f c)"
  "currentIndex c \<le> currentIndex (popFormatting c k)"
  "currentIndex c \<le> currentIndex (handleCodeBlockToken t c)"
  "currentIndex c \<le> currentIndex (handleHorizontalRule c)"
  using codeLines_currentIndex
  by (simp_all add: handleHeadingOpen_def handleHeadingClose_def handleParagraphOpen_def
        handleParagraphClose_def pushFormatting_def popFormatting_def
        handleCodeBlockToken_def handleHorizontalRule_def Let_def add_increasing2 split: option.splits)

text \<open>The strip of a task prefix writes only the mark and the preset of the current item.\<close>

lemma stripTaskPrefix_items:
  assumes "stripTaskPrefix x c = (y, c1)"
  shows "length (pendingListItems c1) = length (pendingListItems c) \<and>
         (\<forall>i < length (pendingListItems c).
            li_startIndex (pendingListItems c1 ! i) = li_startIndex (pendingListItems c ! i) \<and>
            li_endIndex (pendingListItems c1 ! i) = li_endIndex (pendingListItems c ! i) \<and>
            nestingLevel (pendingListItems c1 ! i) = nestingLevel (pendingListItems c ! i) \<and>
            (taskPrefixProcessed (pendingListItems c ! i) \<longrightarrow>
               pendingListItems c1 ! i = pendingListItems c ! i))"
  using assms
  by (auto simp: stripTaskPrefix_def Let_def nth_list_update split: option.splits if_splits
           dest!: getCurrentOpenListItem_Some)

lemma handleTextToken_items:
  "length (pendingListItems (handleTextToken t c)) = length (pendingListItems c) \<and>
   (\<forall>i < length (pendingListItems c).
      li_startIndex (pendingListItems (handleTextToken t c) ! i) = li_startIndex (pendingListItems c ! i) \<and>
      li_endIndex (pendingListItems (handleTextToken t c) ! i) = li_endIndex (pendingListItems c ! i) \<and>
      (taskPrefixProcessed (pendingListItems c ! i) \<longrightarrow>
         pendingListItems (handleTextToken t c) ! i = pendingListItems c ! i)) \<and>
   openListItemStack (handleTextToken t c) = openListItemStack c \<and>
   listStack (handleTextToken t c) = listStack c \<and>
   currentIndex c \<le> currentIndex (handleTextToken t c)"
proof -
  obtain y c1 where st: "stripTaskPrefix (content t) c = (y, c1)"
    by (cases "stripTaskPrefix (content t) c")
  from stripTaskPrefix_items[OF st] stripTaskPrefix_frame[OF st] show ?thesis
    by (simp add: handleTextToken_def Let_def st)
qed

lemma handleCodeInlineToken_items:
  "length (pendingListItems (handleCodeInlineToken t c)) = length (pendingListItems c) \<and>
   (\<forall>i < length (pendingListItems c).
      li_startIndex (pendingListItems (handleCodeInlineToken t c) ! i) = li_startIndex (pendingListItems c ! i) \<and>
      li_endIndex (pendingListItems (handleCodeInlineToken t c) ! i) = li_endIndex (pendingListItems c ! i) \<and>
      (taskPrefixProcessed (pendingListItems c ! i) \<longrightarrow>
         pendingListItems (handleCodeInlineToken t c) ! i = pendingListItems c ! i)) \<and>
   openListItemStack (handleCodeInlineToken t c) = openListItemStack c \<and>
   listStack (handleCodeInlineToken t c) = listStack c \<and>
   currentIndex c \<le> currentIndex (handleCodeInlineToken t c)"
  using handleTextToken_items[of t "pushFormatting (emptyFormatting\<lparr>code := Some True\<rparr>) c"]
  by (simp add: handleCodeInlineToken_def popFormatting_def) (simp add: pushFormatting_def)


subsection \<open>End offsets of list items\<close>

lemma endsAfterStarts_nth:
  "endsAfterStarts c =
     (\<forall>i < length (pendingListItems c). \<forall>e. li_endIndex (pendingListItems c ! i) = Some e \<longrightarrow>
        li_startIndex (pendingListItems c ! i) < e \<and> e < currentIndex c)"
  by (simp add: endsAfterStarts_def all_set_conv_all_nth)

lemma endsOnlyForward_refl: "endsOnlyForward c c"
  by (simp add: endsOnlyForward_def)

lemma endsOnlyForward_trans:
  assumes "endsOnlyForward a b" and "endsOnlyForward b c"
  shows "endsOnlyForward a c"
  unfolding endsOnlyForward_def
proof (intro conjI allI impI)
  show "length (pendingListItems a) \<le> length (pendingListItems c)"
    using assms by (simp add: endsOnlyForward_def)
next
  fix i assume i: "i < length (pendingListItems a)"
  with assms(1) have ib: "i < length (pendingListItems b)" by (simp add: endsOnlyForward_def)
  from assms i ib show "li_startIndex (pendingListItems c ! i) = li_startIndex (pendingListItems a ! i)"
    by (simp add: endsOnlyForward_def)
  fix e assume "li_endIndex (pendingListItems a ! i) = Some e"
  with assms(1) i obtain e1 where e1: "li_endIndex (pendingListItems b ! i) = Some e1" "e \<le> e1"
    unfolding endsOnlyForward_def by blast
  with assms(2) ib obtain e2 where "li_endIndex (pendingListItems c ! i) = Some e2" "e1 \<le> e2"
    unfolding endsOnlyForward_def by blast
  with e1 show "\<exists>e'. li_endIndex (pendingListItems c ! i) = Some e' \<and> e \<le> e'" by auto
qed

text \<open>
  A step that keeps the start and the end of every item and does not move the current
  offset back.
\<close>

lemma ends_sameRanges:
  assumes "length (pendingListItems c') = length (pendingListItems c)"
    and "\<forall>i < length (pendingListItems c).
            li_startIndex (pendingListItems c' ! i) = li_startIndex (pendingListItems c ! i) \<and>
            li_endIndex (pendingListItems c' ! i) = li_endIndex (pendingListItems c ! i)"
    and "currentIndex c \<le> currentIndex c'"
    and "endsAfterStarts c"
  shows "endsAfterStarts c' \<and> endsOnlyForward c c'"
  using assms unfolding endsAfterStarts_nth endsOnlyForward_def by fastforce

lemma ends_unchanged:
  assumes "pendingListItems c' = pendingListItems c" and "currentIndex c \<le> currentIndex c'"
    and "endsAfterStarts c"
  shows "endsAfterStarts c' \<and> endsOnlyForward c c'"
  using assms by (intro ends_sameRanges) simp_all

text \<open>
  Writing an end offset that lies after the start, before the current offset and not
  before the end that was set.
\<close>

lemma ends_setEnd:
  assumes ea: "endsAfterStarts c" and i: "i < length (pendingListItems c)"
    and lo: "li_startIndex (pendingListItems c ! i) < e" and hi: "e < currentIndex c"
    and fw: "\<forall>e0. li_endIndex (pendingListItems c ! i) = Some e0 \<longrightarrow> e0 \<le> e"
    and c': "pendingListItems c' = (pendingListItems c)[i := (pendingListItems c ! i)\<lparr>li_endIndex := Some e\<rparr>]"
    and cur: "currentIndex c \<le> currentIndex c'"
  shows "endsAfterStarts c' \<and> endsOnlyForward c c'"
  using assms unfolding endsAfterStarts_nth endsOnlyForward_def
  by (auto simp: nth_list_update)

lemma paragraphClose_unfold:
  "handleParagraphClose c =
     (let c1 = (if length (listStack c) = 0 then insertText [newline, newline] c
                else if \<not> lastInsertEndsWithNewline c then insertText [newline] c
                else c)
      in (case getCurrentOpenListItem c1 of
            None \<Rightarrow> c1
          | Some i \<Rightarrow>
              if currentIndex c1 - 1 > li_startIndex (pendingListItems c1 ! i)
              then c1\<lparr>pendingListItems :=
                        (pendingListItems c1)
                          [i := (pendingListItems c1 ! i)\<lparr>li_endIndex := Some (currentIndex c1 - 1)\<rparr>]\<rparr>
              else c1)\<lparr>currentParagraphStart := None\<rparr>)"
proof (cases "listStack c = []")
  case True
  then show ?thesis
    by (simp add: handleParagraphClose_def Let_def endsWith_def split: option.splits)
next
  case False
  then show ?thesis
    by (cases "lastInsertEndsWithNewline c")
       (simp_all add: handleParagraphClose_def Let_def endsWith_def split: option.splits)
qed

lemma ends_paragraphClose:
  assumes "endsAfterStarts c"
  shows "endsAfterStarts (handleParagraphClose c) \<and> endsOnlyForward c (handleParagraphClose c)"
proof -
  define c1 where "c1 = (if length (listStack c) = 0 then insertText [newline, newline] c
                else if \<not> lastInsertEndsWithNewline c then insertText [newline] c
                else c)"
  have p1: "pendingListItems c1 = pendingListItems c" and cur1: "currentIndex c \<le> currentIndex c1"
    by (simp_all add: c1_def)
  from ends_unchanged[OF p1 cur1 assms] have ea1: "endsAfterStarts c1" and fw1: "endsOnlyForward c c1"
    by simp_all
  define c2 where "c2 = handleParagraphClose c"
  have c2: "c2 = (case getCurrentOpenListItem c1 of
            None \<Rightarrow> c1
          | Some i \<Rightarrow>
              if currentIndex c1 - 1 > li_startIndex (pendingListItems c1 ! i)
              then c1\<lparr>pendingListItems :=
                        (pendingListItems c1)
                          [i := (pendingListItems c1 ! i)\<lparr>li_endIndex := Some (currentIndex c1 - 1)\<rparr>]\<rparr>
              else c1)\<lparr>currentParagraphStart := None\<rparr>"
    unfolding c2_def paragraphClose_unfold Let_def c1_def[symmetric] ..
  have "endsAfterStarts c2 \<and> endsOnlyForward c1 c2"
  proof (cases "getCurrentOpenListItem c1")
    case None
    with c2 have "pendingListItems c2 = pendingListItems c1" "currentIndex c1 \<le> currentIndex c2" by simp_all
    from ends_unchanged[OF this ea1] show ?thesis .
  next
    case (Some i)
    then have i: "i < length (pendingListItems c1)" by (rule getCurrentOpenListItem_Some)
    show ?thesis
    proof (cases "currentIndex c1 - 1 > li_startIndex (pendingListItems c1 ! i)")
      case False
      with c2 Some have "pendingListItems c2 = pendingListItems c1" "currentIndex c1 \<le> currentIndex c2" by simp_all
      from ends_unchanged[OF this ea1] show ?thesis .
    next
      case True
      with c2 Some have pc: "pendingListItems c2 = (pendingListItems c1)
                          [i := (pendingListItems c1 ! i)\<lparr>li_endIndex := Some (currentIndex c1 - 1)\<rparr>]"
        and cc: "currentIndex c1 \<le> currentIndex c2" by simp_all
      have fw: "\<forall>e0. li_endIndex (pendingListItems c1 ! i) = Some e0 \<longrightarrow> e0 \<le> currentIndex c1 - 1"
        using ea1 i unfolding endsAfterStarts_nth by fastforce
      show ?thesis
        by (rule ends_setEnd[OF ea1 i True _ fw pc cc]) simp
    qed
  qed
  with fw1 show ?thesis unfolding c2_def using endsOnlyForward_trans by blast
qed


lemma lastInsert_updates [simp]:
  "lastInsertEndsWithNewline (c\<lparr>pendingListItems := pl\<rparr>) = lastInsertEndsWithNewline c"
  "lastInsertEndsWithNewline (c\<lparr>openListItemStack := os\<rparr>) = lastInsertEndsWithNewline c"
  "lastInsertEndsWithNewline (c\<lparr>textRanges := tr\<rparr>) = lastInsertEndsWithNewline c"
  "lastInsertEndsWithNewline (c\<lparr>paragraphRanges := pr\<rparr>) = lastInsertEndsWithNewline c"
  "lastInsertEndsWithNewline (c\<lparr>hrRanges := hr\<rparr>) = lastInsertEndsWithNewline c"
  "lastInsertEndsWithNewline (c\<lparr>formattingStack := fs\<rparr>) = lastInsertEndsWithNewline c"
  "lastInsertEndsWithNewline (c\<lparr>listStack := ls\<rparr>) = lastInsertEndsWithNewline c"
  "lastInsertEndsWithNewline (c\<lparr>currentParagraphStart := ps\<rparr>) = lastInsertEndsWithNewline c"
  "lastInsertEndsWithNewline (c\<lparr>currentHeadingLevel := hl\<rparr>) = lastInsertEndsWithNewline c"
  by (simp_all add: lastInsertEndsWithNewline_def lastInsertText_def)

lemma listItemOpen_result:
  assumes "handleListItemOpen c = Inr c'"
  shows "listStack c \<noteq> [] \<and> listStack c' = listStack c \<and> currentIndex c \<le> currentIndex c' \<and>
         openListItemStack c' = openListItemStack c @ [length (pendingListItems c)] \<and>
         (\<exists>item. pendingListItems c' = pendingListItems c @ [item] \<and> li_endIndex item = None \<and>
                 li_startIndex item = currentIndex c \<and> \<not> taskPrefixProcessed item)"
  using assms
  by (auto simp: handleListItemOpen_def Let_def split: if_splits)

lemma listItemClose_result:
  assumes "handleListItemClose c = Inr c'"
  shows "(openListItemStack c = [] \<and> c' = c) \<or>
         (openListItemStack c \<noteq> [] \<and> last (openListItemStack c) < length (pendingListItems c) \<and>
          openListItemStack c' = butlast (openListItemStack c) \<and> listStack c' = listStack c \<and>
          currentIndex c \<le> currentIndex c' \<and>
          (pendingListItems c' = pendingListItems c \<or>
           (li_endIndex (pendingListItems c ! last (openListItemStack c)) = None \<and>
            (\<exists>e. pendingListItems c' =
                    (pendingListItems c)[last (openListItemStack c) :=
                       (pendingListItems c ! last (openListItemStack c))\<lparr>li_endIndex := Some e\<rparr>] \<and>
                  li_startIndex (pendingListItems c ! last (openListItemStack c)) < e \<and>
                  e < currentIndex c'))))"
proof (cases "openListItemStack c = []")
  case True
  with assms show ?thesis by (simp add: handleListItemClose_def)
next
  case False
  define c1 where "c1 = c\<lparr>openListItemStack := butlast (openListItemStack c)\<rparr>"
  define i where "i = last (openListItemStack c)"
  define e where "e = (if lastInsertEndsWithNewline c1 then currentIndex c1 - 1 else currentIndex c1)"
  define c2 where "c2 = (if li_endIndex (pendingListItems c1 ! i) = None \<and> e > li_startIndex (pendingListItems c1 ! i)
                         then c1\<lparr>pendingListItems := (pendingListItems c1)
                                     [i := (pendingListItems c1 ! i)\<lparr>li_endIndex := Some e\<rparr>]\<rparr>
                         else c1)"
  from assms False have i: "i < length (pendingListItems c1)"
    by (auto simp: handleListItemClose_def Let_def c1_def i_def split: if_splits)
  have "handleListItemClose c = Inr (if \<not> lastInsertEndsWithNewline c2 then insertText [newline] c2 else c2)"
    unfolding handleListItemClose_def Let_def c1_def[symmetric] i_def[symmetric] e_def[symmetric]
    using False i by (simp add: c2_def)
  with assms have c': "c' = (if \<not> lastInsertEndsWithNewline c2 then insertText [newline] c2 else c2)"
    by simp
  have l2: "lastInsertEndsWithNewline c2 = lastInsertEndsWithNewline c1"
    by (simp add: c2_def lastInsertEndsWithNewline_def lastInsertText_def)
  have "pendingListItems c' = pendingListItems c \<or>
           (li_endIndex (pendingListItems c ! i) = None \<and>
            (\<exists>e. pendingListItems c' = (pendingListItems c)[i := (pendingListItems c ! i)\<lparr>li_endIndex := Some e\<rparr>] \<and>
                  li_startIndex (pendingListItems c ! i) < e \<and> e < currentIndex c'))"
  proof (cases "li_endIndex (pendingListItems c1 ! i) = None \<and> e > li_startIndex (pendingListItems c1 ! i)")
    case False
    then have "pendingListItems c' = pendingListItems c" by (auto simp: c' c2_def c1_def)
    then show ?thesis by simp
  next
    case True
    then have "pendingListItems c' = (pendingListItems c)[i := (pendingListItems c ! i)\<lparr>li_endIndex := Some e\<rparr>]"
      by (auto simp: c' c2_def c1_def)
    moreover have "e < currentIndex c'"
      using True by (cases "lastInsertEndsWithNewline c1") (simp_all add: c' l2 e_def c2_def)
    ultimately show ?thesis using True by (auto simp: c1_def)
  qed
  moreover have "openListItemStack c' = butlast (openListItemStack c)" "listStack c' = listStack c"
    "currentIndex c \<le> currentIndex c'"
    by (auto simp: c' c2_def c1_def)
  ultimately show ?thesis using False i by (simp add: i_def c1_def)
qed

lemma ends_listItemOpen:
  assumes "handleListItemOpen c = Inr c'" and "endsAfterStarts c"
  shows "endsAfterStarts c' \<and> endsOnlyForward c c'"
proof -
  from listItemOpen_result[OF assms(1)] obtain item where
    p: "pendingListItems c' = pendingListItems c @ [item]" and n: "li_endIndex item = None"
    and cur: "currentIndex c \<le> currentIndex c'" by blast
  from assms(2) p n cur show ?thesis
    unfolding endsAfterStarts_nth endsOnlyForward_def
    by (auto simp: nth_append less_Suc_eq)
qed

lemma ends_listItemClose:
  assumes "handleListItemClose c = Inr c'" and ea: "endsAfterStarts c"
  shows "endsAfterStarts c' \<and> endsOnlyForward c c'"
proof -
  from listItemClose_result[OF assms(1)]
  consider (noop) "c' = c"
    | (same) "pendingListItems c' = pendingListItems c" "currentIndex c \<le> currentIndex c'"
    | (set) e where "last (openListItemStack c) < length (pendingListItems c)"
        "li_endIndex (pendingListItems c ! last (openListItemStack c)) = None"
        "pendingListItems c' = (pendingListItems c)[last (openListItemStack c) :=
                       (pendingListItems c ! last (openListItemStack c))\<lparr>li_endIndex := Some e\<rparr>]"
        "li_startIndex (pendingListItems c ! last (openListItemStack c)) < e" "e < currentIndex c'"
        "currentIndex c \<le> currentIndex c'"
    by blast
  then show ?thesis
  proof cases
    case noop
    with ea show ?thesis by (simp add: endsOnlyForward_refl)
  next
    case same
    from ends_unchanged[OF same ea] show ?thesis .
  next
    case set
    with ea show ?thesis
      unfolding endsAfterStarts_nth endsOnlyForward_def
      by (auto simp: nth_list_update)
  qed
qed

lemma ends_leaf:
  assumes "ttype t \<noteq> T_inline" and "processToken t c = Inr c'" and ea: "endsAfterStarts c"
  shows "endsAfterStarts c' \<and> endsOnlyForward c c' \<and> currentIndex c \<le> currentIndex c'"
proof -
  note un = ends_unchanged[OF _ _ ea]
  from processToken_leaf[OF assms(1,2)] show ?thesis
  proof (elim disjE conjE exE)
    assume "c' = handleTextToken t c"
    with handleTextToken_items[of t c] ends_sameRanges[of c' c, OF _ _ _ ea] show ?thesis by simp
  next
    assume "c' = handleCodeInlineToken t c"
    with handleCodeInlineToken_items[of t c] ends_sameRanges[of c' c, OF _ _ _ ea] show ?thesis by simp
  next
    assume "c' = handleParagraphClose c"
    with ends_paragraphClose[OF ea] show ?thesis by simp
  next
    assume "handleListItemOpen c = Inr c'"
    from ends_listItemOpen[OF this ea] listItemOpen_result[OF this] show ?thesis by simp
  next
    assume "handleListItemClose c = Inr c'"
    from ends_listItemClose[OF this ea] listItemClose_result[OF this] show ?thesis by auto
  qed (use ea un in \<open>simp_all add: endsOnlyForward_refl\<close>)
qed

lemma ends_pass:
  assumes "processTokens ts c = Inr c'" and "endsAfterStarts c"
  shows "endsAfterStarts c' \<and> endsOnlyForward c c'"
proof -
  have "endsAfterStarts c \<longrightarrow>
          endsAfterStarts c' \<and> endsOnlyForward c c' \<and> currentIndex c \<le> currentIndex c'"
    by (rule processTokens_rel(2)[where R = "\<lambda>c c'. endsAfterStarts c \<longrightarrow>
          endsAfterStarts c' \<and> endsOnlyForward c c' \<and> currentIndex c \<le> currentIndex c'", OF _ _ _ assms(1)])
       (auto simp: endsOnlyForward_refl dest: ends_leaf intro: endsOnlyForward_trans)
  with assms(2) show ?thesis by simp
qed


lemma listItemClose_keeps_set_end:
  assumes "handleListItemClose d = Inr d'" and "i < length (pendingListItems d)"
    and "li_endIndex (pendingListItems d ! i) = Some e"
  shows "li_endIndex (pendingListItems d' ! i) = Some e"
  using listItemClose_result[OF assms(1)] assms(2,3)
  by (auto simp: nth_list_update)

lemma paragraphClose_result:
  "currentIndex c \<le> currentIndex (handleParagraphClose c) \<and>
   (pendingListItems (handleParagraphClose c) = pendingListItems c \<or>
    (\<exists>i e. getCurrentOpenListItem c = Some i \<and> i < length (pendingListItems c) \<and>
           pendingListItems (handleParagraphClose c) =
             (pendingListItems c)[i := (pendingListItems c ! i)\<lparr>li_endIndex := Some e\<rparr>]))"
proof -
  define c1 where "c1 = (if length (listStack c) = 0 then insertText [newline, newline] c
                else if \<not> lastInsertEndsWithNewline c then insertText [newline] c
                else c)"
  have p1: "pendingListItems c1 = pendingListItems c" and g1: "getCurrentOpenListItem c1 = getCurrentOpenListItem c"
    and cur1: "currentIndex c \<le> currentIndex c1"
    by (simp_all add: c1_def)
  show ?thesis
    using p1 g1 cur1 getCurrentOpenListItem_Some[of c]
    unfolding paragraphClose_unfold Let_def c1_def[symmetric]
    by (auto split: option.splits)
qed


subsection \<open>The marks of the task prefix\<close>

lemma marksKept_refl: "marksKept c c"
  by (simp add: marksKept_def)

lemma marksKept_trans: "marksKept a b \<Longrightarrow> marksKept b c \<Longrightarrow> marksKept a c"
  unfolding marksKept_def by fastforce

lemma marksKept_unchanged: "pendingListItems c' = pendingListItems c \<Longrightarrow> marksKept c c'"
  by (simp add: marksKept_def)

lemma marksKept_setEnd:
  "i < length (pendingListItems c) \<Longrightarrow>
   pendingListItems c' = (pendingListItems c)[i := (pendingListItems c ! i)\<lparr>li_endIndex := e\<rparr>] \<Longrightarrow>
   marksKept c c'"
  by (auto simp: marksKept_def nth_list_update)

lemma marksKept_leaf:
  assumes "ttype t \<noteq> T_inline" and "processToken t c = Inr c'"
  shows "marksKept c c'"
proof -
  from processToken_leaf[OF assms] show ?thesis
  proof (elim disjE conjE exE)
    assume "c' = handleTextToken t c"
    with handleTextToken_items[of t c] show ?thesis by (simp add: marksKept_def)
  next
    assume "c' = handleCodeInlineToken t c"
    with handleCodeInlineToken_items[of t c] show ?thesis by (simp add: marksKept_def)
  next
    assume "c' = handleParagraphClose c"
    with paragraphClose_result[of c] show ?thesis
      by (auto intro: marksKept_unchanged marksKept_setEnd)
  next
    assume "handleListItemOpen c = Inr c'"
    from listItemOpen_result[OF this] show ?thesis
      by (auto simp: marksKept_def nth_append)
  next
    assume "handleListItemClose c = Inr c'"
    from listItemClose_result[OF this] show ?thesis
      by (auto intro: marksKept_refl marksKept_unchanged marksKept_setEnd)
  qed (simp_all add: marksKept_unchanged)
qed

lemma marksKept_pass:
  assumes "processTokens ts c = Inr c'"
  shows "marksKept c c'"
  by (rule processTokens_rel(2)[where R = marksKept, OF _ _ _ assms])
     (auto intro: marksKept_refl marksKept_trans marksKept_leaf)

subsection \<open>The indices of the open list items\<close>

lemma processToken_leaf_error:
  assumes "ttype t \<noteq> T_inline" and "processToken t c = Inl err"
  shows "(ttype t = T_list_item_open \<and> handleListItemOpen c = Inl err) \<or>
         (ttype t = T_list_item_close \<and> handleListItemClose c = Inl err)"
proof (cases t)
  case (Token ty tg cnt ats chs)
  with assms show ?thesis
    by (cases ty) (auto simp: Let_def split: if_splits)
qed

lemma listItemOpen_error:
  "(handleListItemOpen c = Inl err) =
     (listStack c = [] \<and> err = MarkdownConversionError listItemOutsideListMessage)"
  by (auto simp: handleListItemOpen_def Let_def listItemOutsideListMessage_def)

lemma listItemClose_error:
  "handleListItemClose c = Inl err \<Longrightarrow> \<not> validItemIndices c"
  by (auto simp: handleListItemClose_def Let_def validItemIndices_def split: if_splits)

lemma valid_leaf:
  assumes "ttype t \<noteq> T_inline" and "processToken t c = Inr c'" and v: "validItemIndices c"
  shows "validItemIndices c' \<and>
         length (listStack c') =
           (if ttype t = T_bullet_list_open \<or> ttype t = T_ordered_list_open then Suc (length (listStack c))
            else if ttype t = T_bullet_list_close \<or> ttype t = T_ordered_list_close
            then length (listStack c) - 1
            else length (listStack c))"
proof -
  from processToken_leaf[OF assms(1,2)] show ?thesis
  proof (elim disjE conjE exE)
    assume "ttype t = T_text" "c' = handleTextToken t c"
    with handleTextToken_items[of t c] v show ?thesis by (simp add: validItemIndices_def)
  next
    assume "ttype t = T_code_inline" "c' = handleCodeInlineToken t c"
    with handleCodeInlineToken_items[of t c] v show ?thesis by (simp add: validItemIndices_def)
  next
    assume "ttype t = T_paragraph_close" "c' = handleParagraphClose c"
    with paragraphClose_result[of c] v show ?thesis
      by (auto simp: validItemIndices_def)
  next
    assume "ttype t = T_list_item_open" "handleListItemOpen c = Inr c'"
    with listItemOpen_result[of c c'] v show ?thesis
      by (auto simp: validItemIndices_def less_Suc_eq)
  next
    assume "ttype t = T_list_item_close" "handleListItemClose c = Inr c'"
    with listItemClose_result[of c c'] v show ?thesis
      by (auto simp: validItemIndices_def dest!: in_set_butlastD)
  qed (use v in \<open>auto simp: validItemIndices_def codeBlockArm_def tableStructure_def\<close>)
qed


section \<open>The end offset of a list item\<close>

lemma twoParagraph_first_pass:
  "processTokens twoParagraphItemFirst (initialContext 1 None) = Inr (contextAfter twoParagraphItemFirst)"
  by code_simp

lemma twoParagraph_second_pass:
  "processTokens secondParagraphTokens (contextAfter twoParagraphItemFirst) =
     Inr (contextAfter twoParagraphItemSecond)"
  by code_simp

text \<open>
  Claim C9 says that the end offset of a pending list item is assigned exactly once and
  never again. In a list item of two paragraphs the close of the first paragraph sets the
  end offset of the item to 2 and the close of the second paragraph sets it again, to 4.
\<close>

theorem list_item_end_assigned_twice:
  "passItemEnds (processTokens twoParagraphItemFirst (initialContext 1 None)) = [Some 2] \<and>
   passItemEnds (processTokens twoParagraphItemSecond (initialContext 1 None)) = [Some 4]"
  by code_simp

lemma endsAfterStarts_initialContext: "endsAfterStarts (initialContext s tab)"
  by (simp add: endsAfterStarts_def initialContext_def)

text \<open>
  Claim C9, amended. At every point of a conversion each end offset that is set lies
  after the start offset of its item (and before the current offset). Whatever tokens
  follow, an end offset that is set stays set and never moves backwards: the close of a
  later paragraph of the same item may assign it again, to a later offset. The close of
  a list item never changes an end offset that is set: it assigns only an unset one.
\<close>

theorem list_item_ends_move_forward_only:
  assumes "processTokens before (initialContext s tab) = Inr c"
    and "processTokens after c = Inr c'"
  shows "endsAfterStarts c \<and> endsOnlyForward c c' \<and>
         (\<forall>d d' i e. handleListItemClose d = Inr d' \<longrightarrow> i < length (pendingListItems d) \<longrightarrow>
            li_endIndex (pendingListItems d ! i) = Some e \<longrightarrow>
            li_endIndex (pendingListItems d' ! i) = Some e)"
proof -
  from ends_pass[OF assms(1) endsAfterStarts_initialContext] have ea: "endsAfterStarts c" by simp
  from ends_pass[OF assms(2) ea] ea listItemClose_keeps_set_end show ?thesis by blast
qed

theorem list_item_ends_move_forward_only_witness:
  "processTokens twoParagraphItemFirst (initialContext 1 None) = Inr (contextAfter twoParagraphItemFirst) \<and>
   processTokens secondParagraphTokens (contextAfter twoParagraphItemFirst) =
     Inr (contextAfter twoParagraphItemSecond) \<and>
   endsAfterStarts (contextAfter twoParagraphItemFirst) \<and>
   endsOnlyForward (contextAfter twoParagraphItemFirst) (contextAfter twoParagraphItemSecond)"
  using list_item_ends_move_forward_only [OF twoParagraph_first_pass twoParagraph_second_pass]
        twoParagraph_first_pass twoParagraph_second_pass
  by blast


section \<open>Task lists\<close>

lemma text_marked_verbatim:
  assumes "\<forall>i. getCurrentOpenListItem c = Some i \<longrightarrow> taskPrefixProcessed (pendingListItems c ! i)"
    and "content tok \<noteq> []"
  shows "pendingListItems (handleTextToken tok c) = pendingListItems c \<and>
         insertRequests (handleTextToken tok c) =
           insertRequests c @
           [InsertText \<lparr>loc_index = currentIndex c,
                        loc_tabId = (if truthy (tabId c) then tabId c else None)\<rparr> (content tok)]"
proof -
  from assms(1) have "stripTaskPrefix (content tok) c = (content tok, c)"
    by (auto simp: stripTaskPrefix_def split: option.splits)
  with assms(2) show ?thesis
    by (simp add: handleTextToken_def Let_def)
qed

lemma text_sets_mark:
  assumes "getCurrentOpenListItem c = Some i" and "content tok \<noteq> []"
  shows "taskPrefixProcessed (pendingListItems (handleTextToken tok c) ! i)"
proof -
  from assms(1) have i: "i < length (pendingListItems c)" by (rule getCurrentOpenListItem_Some)
  obtain y c1 where st: "stripTaskPrefix (content tok) c = (y, c1)"
    by (cases "stripTaskPrefix (content tok) c")
  with assms(1) i have "taskPrefixProcessed (pendingListItems c1 ! i)"
    by (auto simp: stripTaskPrefix_def Let_def split: if_splits option.splits)
  with assms(2) st show ?thesis
    by (simp add: handleTextToken_def Let_def)
qed

lemma text_strips_prefix:
  assumes "getCurrentOpenListItem c = Some i" and "\<not> taskPrefixProcessed (pendingListItems c ! i)"
    and "taskPrefixMatch (content tok) = Some n"
  shows "bulletPresetOf (pendingListItems (handleTextToken tok c) ! i) = BULLET_CHECKBOX \<and>
         (drop n (content tok) = [] \<longrightarrow>
            insertRequests (handleTextToken tok c) = insertRequests c \<and>
            textRanges (handleTextToken tok c) = textRanges c \<and>
            currentIndex (handleTextToken tok c) = currentIndex c) \<and>
         (drop n (content tok) \<noteq> [] \<longrightarrow>
            insertRequests (handleTextToken tok c) =
              insertRequests c @
              [InsertText \<lparr>loc_index = currentIndex c,
                           loc_tabId = (if truthy (tabId c) then tabId c else None)\<rparr>
                 (drop n (content tok))])"
proof -
  from assms(1) have i: "i < length (pendingListItems c)" by (rule getCurrentOpenListItem_Some)
  from assms(3) have ne: "content tok \<noteq> []" by auto
  from assms have st: "stripTaskPrefix (content tok) c =
      (drop n (content tok),
       c\<lparr>pendingListItems := (pendingListItems c)
            [i := (pendingListItems c ! i)\<lparr>taskPrefixProcessed := True, bulletPresetOf := BULLET_CHECKBOX\<rparr>]\<rparr>)"
    by (simp add: stripTaskPrefix_def Let_def)
  show ?thesis
    using i ne by (simp add: handleTextToken_def Let_def st)
qed

lemma listItemOpen_fresh:
  assumes "handleListItemOpen c = Inr c'"
  shows "getCurrentOpenListItem c' = Some (length (pendingListItems c)) \<and>
         \<not> taskPrefixProcessed (pendingListItems c' ! length (pendingListItems c))"
  using listItemOpen_result[OF assms]
  by (auto simp: getCurrentOpenListItem_def)

lemma openItem_pass:
  "getCurrentOpenListItem (contextAfter openItemTokens) = Some 0 \<and>
   taskPrefixProcessed (pendingListItems (contextAfter openItemTokens) ! 0) = False \<and>
   taskPrefixMatch (content (textToken ''[x] '')) = Some 4 \<and>
   drop 4 (content (textToken ''[x] '')) = []"
  by code_simp

lemma text_empty_skipped: "content tok = [] \<Longrightarrow> handleTextToken tok c = c"
  by (simp add: handleTextToken_def)

lemma stripTaskPrefix_push:
  "stripTaskPrefix x (pushFormatting f c) =
     (fst (stripTaskPrefix x c), pushFormatting f (snd (stripTaskPrefix x c)))"
  by (simp add: stripTaskPrefix_def pushFormatting_def getCurrentOpenListItem_def Let_def
           split: option.splits)

lemma codeInline_as_text:
  "pendingListItems (handleCodeInlineToken tok c) = pendingListItems (handleTextToken tok c) \<and>
   insertRequests (handleCodeInlineToken tok c) = insertRequests (handleTextToken tok c)"
proof -
  obtain y c1 where st: "stripTaskPrefix (content tok) c = (y, c1)"
    by (cases "stripTaskPrefix (content tok) c")
  define c0 where "c0 = pushFormatting (emptyFormatting\<lparr>code := Some True\<rparr>) c"
  define c2 where "c2 = pushFormatting (emptyFormatting\<lparr>code := Some True\<rparr>) c1"
  have st0: "stripTaskPrefix (content tok) c0 = (y, c2)"
    unfolding c0_def c2_def by (simp add: stripTaskPrefix_push st)
  have f: "pendingListItems c2 = pendingListItems c1" "insertRequests c2 = insertRequests c1"
    "currentIndex c2 = currentIndex c1" "tabId c2 = tabId c1"
    "pendingListItems c0 = pendingListItems c" "insertRequests c0 = insertRequests c"
    by (simp_all add: c0_def c2_def pushFormatting_def)
  have a: "pendingListItems (handleCodeInlineToken tok c) = pendingListItems (handleTextToken tok c0)"
    "insertRequests (handleCodeInlineToken tok c) = insertRequests (handleTextToken tok c0)"
    by (simp_all add: handleCodeInlineToken_def popFormatting_def c0_def)
  have b: "pendingListItems (handleTextToken tok c0) = pendingListItems (handleTextToken tok c) \<and>
           insertRequests (handleTextToken tok c0) = insertRequests (handleTextToken tok c)"
    by (cases "content tok = []"; cases "y = []")
       (simp_all add: handleTextToken_def st st0 Let_def insertText_def f)
  from a b show ?thesis by simp
qed

lemma text_unmatched_verbatim:
  assumes "getCurrentOpenListItem c = Some i" and "\<not> taskPrefixProcessed (pendingListItems c ! i)"
    and "taskPrefixMatch (content tok) = None" and "content tok \<noteq> []"
  shows "bulletPresetOf (pendingListItems (handleTextToken tok c) ! i) =
           bulletPresetOf (pendingListItems c ! i) \<and>
         insertRequests (handleTextToken tok c) =
           insertRequests c @
           [InsertText \<lparr>loc_index = currentIndex c,
                        loc_tabId = (if truthy (tabId c) then tabId c else None)\<rparr> (content tok)]"
proof -
  from assms(1) have i: "i < length (pendingListItems c)" by (rule getCurrentOpenListItem_Some)
  from assms have st: "stripTaskPrefix (content tok) c =
      (content tok,
       c\<lparr>pendingListItems := (pendingListItems c)
            [i := (pendingListItems c ! i)\<lparr>taskPrefixProcessed := True\<rparr>]\<rparr>)"
    by (simp add: stripTaskPrefix_def Let_def)
  show ?thesis
    using i assms(4) by (simp add: handleTextToken_def Let_def st)
qed

lemma emptyText_pass:
  "content (textToken []) = [] \<and>
   getCurrentOpenListItem (contextAfter openItemTokens) = Some 0 \<and>
   taskPrefixProcessed (pendingListItems (contextAfter openItemTokens) ! 0) = False \<and>
   taskPrefixMatch (content (textToken ''[x] a'')) = Some 4 \<and>
   drop 4 (content (textToken ''[x] a'')) = ''a'' \<and>
   currentIndex (contextAfter openItemTokens) = 1 \<and>
   tabId (contextAfter openItemTokens) = None \<and>
   insertRequests (contextAfter openItemTokens) = []"
  by code_simp


text \<open>
  Claim C7 says that the task prefix is stripped only from the first text token of a
  freshly opened list item. For \<^verbatim>\<open>- **[x] a**\<close> the first text token of the item is
  empty; the handler returns on it before it marks the item, so the item is still unmarked
  with its disc preset, and the prefix is stripped from the second text token: the text
  inserted is \<^verbatim>\<open>a\<close> and the item gets the checkbox preset.
\<close>

theorem task_prefix_stripped_from_second_text_token:
  "flattenTokens emphasisedTaskTokens =
     [blockToken T_bullet_list_open ''ul'', blockToken T_list_item_open ''li'',
      blockToken T_paragraph_open ''p'',
      textToken [], blockToken T_strong_open ''strong'', textToken ''[x] a'',
      blockToken T_strong_close ''strong'', textToken [],
      blockToken T_paragraph_close ''p'', blockToken T_list_item_close ''li'',
      blockToken T_bullet_list_close ''ul''] \<and>
   insertTexts (resultRequests
     (convertMarkdownToRequests (tokenizerFor emphasisedTaskMarkdown emphasisedTaskTokens)
        rejectEveryColor emphasisedTaskMarkdown 1 None)) = [(1, ''a''), (2, [newline])] \<and>
   bulletPresets (resultRequests
     (convertMarkdownToRequests (tokenizerFor emphasisedTaskMarkdown emphasisedTaskTokens)
        rejectEveryColor emphasisedTaskMarkdown 1 None)) = [BULLET_CHECKBOX] \<and>
   taskPrefixProcessed
     (pendingListItems (contextAfter (openItemTokens @ [textToken []])) ! 0) = False \<and>
   bulletPresetOf
     (pendingListItems (contextAfter (openItemTokens @ [textToken []])) ! 0) =
     BULLET_DISC_CIRCLE_SQUARE \<and>
   bulletPresetOf
     (pendingListItems (contextAfter (openItemTokens @ [textToken [], textToken ''[x] a''])) ! 0) =
     BULLET_CHECKBOX \<and>
   insertTexts (insertRequests (contextAfter (openItemTokens @ [textToken [], textToken ''[x] a'']))) =
     [(1, ''a'')]"
  by code_simp

text \<open>
  Claim C7, amended. For the task list of two items at offset 1 the conversion returns
  exactly two bullet assignments, both with the checkbox preset, and no inserted text
  contains \<^verbatim>\<open>[x]\<close> or \<^verbatim>\<open>[ ]\<close>. The strip of the task prefix fires at most once
  per item, on the first text with content that reaches the text handler while the item
  is the innermost open one and unmarked. A list item that has just been opened is the
  current item and is unmarked. A text token with empty content changes nothing and does
  not mark the item. Inline code runs the text handler on its content and so counts as a
  text. A text with content marks the current item; for a marked current item, or outside
  of any item, the text is inserted as it is and no pending item changes; a mark, once
  set, stays set with the bullet preset of its item through any further tokens. For an
  unmarked current item, a text with content that does not match is inserted as it is and
  the preset stays; when the prefix matches, the item gets the checkbox preset and the
  rest of the text is inserted; when nothing is left after the strip, no insertion is
  made, no styled range is recorded and the current offset stays.
\<close>

theorem task_prefix_stripped_once:
  "(parseMarkdown taskListMarkdown = taskListTokens \<longrightarrow>
      convertMarkdownToRequests parseMarkdown hexToRgbColor taskListMarkdown 1 None = Inr taskListRequests) \<and>
   length (filter isBullet taskListRequests) = 2 \<and>
   bulletPresets taskListRequests = [BULLET_CHECKBOX, BULLET_CHECKBOX] \<and>
   (\<forall>x \<in> set (insertTexts taskListRequests).
      \<not> includesStr (snd x) ''[x]'' \<and> \<not> includesStr (snd x) ''[ ]'') \<and>
   (\<forall>c c'. handleListItemOpen c = Inr c' \<longrightarrow>
      getCurrentOpenListItem c' = Some (length (pendingListItems c)) \<and>
      \<not> taskPrefixProcessed (pendingListItems c' ! length (pendingListItems c))) \<and>
   (\<forall>tok c. ttype tok = T_text \<longrightarrow> processToken tok c = Inr (handleTextToken tok c)) \<and>
   (\<forall>tok c. ttype tok = T_code_inline \<longrightarrow>
      processToken tok c = Inr (handleCodeInlineToken tok c) \<and>
      pendingListItems (handleCodeInlineToken tok c) = pendingListItems (handleTextToken tok c) \<and>
      insertRequests (handleCodeInlineToken tok c) = insertRequests (handleTextToken tok c)) \<and>
   (\<forall>tok c. content tok = [] \<longrightarrow> handleTextToken tok c = c) \<and>
   (\<forall>tok c i. getCurrentOpenListItem c = Some i \<longrightarrow> content tok \<noteq> [] \<longrightarrow>
      taskPrefixProcessed (pendingListItems (handleTextToken tok c) ! i)) \<and>
   (\<forall>tok c. (\<forall>i. getCurrentOpenListItem c = Some i \<longrightarrow> taskPrefixProcessed (pendingListItems c ! i)) \<longrightarrow>
      content tok \<noteq> [] \<longrightarrow>
      pendingListItems (handleTextToken tok c) = pendingListItems c \<and>
      insertRequests (handleTextToken tok c) =
        insertRequests c @
        [InsertText \<lparr>loc_index = currentIndex c,
                     loc_tabId = (if truthy (tabId c) then tabId c else None)\<rparr> (content tok)]) \<and>
   (\<forall>tok c i. getCurrentOpenListItem c = Some i \<longrightarrow>
      \<not> taskPrefixProcessed (pendingListItems c ! i) \<longrightarrow>
      taskPrefixMatch (content tok) = None \<longrightarrow> content tok \<noteq> [] \<longrightarrow>
      bulletPresetOf (pendingListItems (handleTextToken tok c) ! i) =
        bulletPresetOf (pendingListItems c ! i) \<and>
      insertRequests (handleTextToken tok c) =
        insertRequests c @
        [InsertText \<lparr>loc_index = currentIndex c,
                     loc_tabId = (if truthy (tabId c) then tabId c else None)\<rparr> (content tok)]) \<and>
   (\<forall>tok c i n. getCurrentOpenListItem c = Some i \<longrightarrow>
      \<not> taskPrefixProcessed (pendingListItems c ! i) \<longrightarrow>
      taskPrefixMatch (content tok) = Some n \<longrightarrow>
      bulletPresetOf (pendingListItems (handleTextToken tok c) ! i) = BULLET_CHECKBOX \<and>
      (drop n (content tok) = [] \<longrightarrow>
         insertRequests (handleTextToken tok c) = insertRequests c \<and>
         textRanges (handleTextToken tok c) = textRanges c \<and>
         currentIndex (handleTextToken tok c) = currentIndex c) \<and>
      (drop n (content tok) \<noteq> [] \<longrightarrow>
         insertRequests (handleTextToken tok c) =
           insertRequests c @
           [InsertText \<lparr>loc_index = currentIndex c,
                        loc_tabId = (if truthy (tabId c) then tabId c else None)\<rparr>
              (drop n (content tok))])) \<and>
   (\<forall>ts c c'. processTokens ts c = Inr c' \<longrightarrow> marksKept c c')"
proof -
  have c1: "parseMarkdown taskListMarkdown = taskListTokens \<longrightarrow>
      convertMarkdownToRequests parseMarkdown hexToRgbColor taskListMarkdown 1 None = Inr taskListRequests"
    using taskList_conversion [of hexToRgbColor]
          convert_depends_on_tokens [of parseMarkdown hexToRgbColor taskListMarkdown 1 None]
    by simp
  have c2: "length (filter isBullet taskListRequests) = 2"
    and c3: "bulletPresets taskListRequests = [BULLET_CHECKBOX, BULLET_CHECKBOX]"
    and c4: "\<forall>x \<in> set (insertTexts taskListRequests).
      \<not> includesStr (snd x) ''[x]'' \<and> \<not> includesStr (snd x) ''[ ]''"
    by (simp_all add: taskListRequests_def)
  have c5: "\<forall>c c'. handleListItemOpen c = Inr c' \<longrightarrow>
      getCurrentOpenListItem c' = Some (length (pendingListItems c)) \<and>
      \<not> taskPrefixProcessed (pendingListItems c' ! length (pendingListItems c))"
    using listItemOpen_fresh by blast
  have c6: "\<forall>tok c. ttype tok = T_text \<longrightarrow> processToken tok c = Inr (handleTextToken tok c)"
    by (simp add: processToken_text)
  have c7: "\<forall>tok c. ttype tok = T_code_inline \<longrightarrow>
      processToken tok c = Inr (handleCodeInlineToken tok c) \<and>
      pendingListItems (handleCodeInlineToken tok c) = pendingListItems (handleTextToken tok c) \<and>
      insertRequests (handleCodeInlineToken tok c) = insertRequests (handleTextToken tok c)"
    by (simp add: processToken_code_inline codeInline_as_text)
  have c8: "\<forall>tok c. content tok = [] \<longrightarrow> handleTextToken tok c = c"
    by (simp add: text_empty_skipped)
  have c9: "\<forall>tok c i. getCurrentOpenListItem c = Some i \<longrightarrow> content tok \<noteq> [] \<longrightarrow>
      taskPrefixProcessed (pendingListItems (handleTextToken tok c) ! i)"
    using text_sets_mark by blast
  have c10: "\<forall>tok c. (\<forall>i. getCurrentOpenListItem c = Some i \<longrightarrow> taskPrefixProcessed (pendingListItems c ! i)) \<longrightarrow>
      content tok \<noteq> [] \<longrightarrow>
      pendingListItems (handleTextToken tok c) = pendingListItems c \<and>
      insertRequests (handleTextToken tok c) =
        insertRequests c @
        [InsertText \<lparr>loc_index = currentIndex c,
                     loc_tabId = (if truthy (tabId c) then tabId c else None)\<rparr> (content tok)]"
    using text_marked_verbatim by blast
  have c11: "\<forall>tok c i. getCurrentOpenListItem c = Some i \<longrightarrow>
      \<not> taskPrefixProcessed (pendingListItems c ! i) \<longrightarrow>
      taskPrefixMatch (content tok) = None \<longrightarrow> content tok \<noteq> [] \<longrightarrow>
      bulletPresetOf (pendingListItems (handleTextToken tok c) ! i) =
        bulletPresetOf (pendingListItems c ! i) \<and>
      insertRequests (handleTextToken tok c) =
        insertRequests c @
        [InsertText \<lparr>loc_index = currentIndex c,
                     loc_tabId = (if truthy (tabId c) then tabId c else None)\<rparr> (content tok)]"
    using text_unmatched_verbatim by blast
  have c12: "\<forall>tok c i n. getCurrentOpenListItem c = Some i \<longrightarrow>
      \<not> taskPrefixProcessed (pendingListItems c ! i) \<longrightarrow>
      taskPrefixMatch (content tok) = Some n \<longrightarrow>
      bulletPresetOf (pendingListItems (handleTextToken tok c) ! i) = BULLET_CHECKBOX \<and>
      (drop n (content tok) = [] \<longrightarrow>
         insertRequests (handleTextToken tok c) = insertRequests c \<and>
         textRanges (handleTextToken tok c) = textRanges c \<and>
         currentIndex (handleTextToken tok c) = currentIndex c) \<and>
      (drop n (content tok) \<noteq> [] \<longrightarrow>
         insertRequests (handleTextToken tok c) =
           insertRequests c @
           [InsertText \<lparr>loc_index = currentIndex c,
                        loc_tabId = (if truthy (tabId c) then tabId c else None)\<rparr>
              (drop n (content tok))])"
    using text_strips_prefix by blast
  have c13: "\<forall>ts c c'. processTokens ts c = Inr c' \<longrightarrow> marksKept c c'"
    using marksKept_pass by blast
  from c1 c2 c3 c4 c5 c6 c7 c8 c9 c10 c11 c12 c13 show ?thesis by (intro conjI)
qed

theorem task_prefix_stripped_once_witness:
  "tokenizerFor taskListMarkdown taskListTokens taskListMarkdown = taskListTokens \<and>
   convertMarkdownToRequests (tokenizerFor taskListMarkdown taskListTokens) rejectEveryColor
     taskListMarkdown 1 None = Inr taskListRequests \<and>
   getCurrentOpenListItem (contextAfter openItemTokens) = Some 0 \<and>
   taskPrefixProcessed (pendingListItems (contextAfter openItemTokens) ! 0) = False \<and>
   content (textToken []) = [] \<and>
   handleTextToken (textToken []) (contextAfter openItemTokens) = contextAfter openItemTokens \<and>
   taskPrefixMatch (content (textToken ''[x] a'')) = Some 4 \<and>
   drop 4 (content (textToken ''[x] a'')) = ''a'' \<and>
   insertRequests (handleTextToken (textToken ''[x] a'') (contextAfter openItemTokens)) =
     [InsertText \<lparr>loc_index = 1, loc_tabId = None\<rparr> ''a''] \<and>
   bulletPresetOf (pendingListItems (handleTextToken (textToken ''[x] a'') (contextAfter openItemTokens)) ! 0) =
     BULLET_CHECKBOX \<and>
   taskPrefixProcessed
     (pendingListItems (handleTextToken (textToken ''[x] a'') (contextAfter openItemTokens)) ! 0) \<and>
   taskPrefixMatch (content (textToken ''[x] '')) = Some 4 \<and>
   drop 4 (content (textToken ''[x] '')) = [] \<and>
   insertRequests (handleTextToken (textToken ''[x] '') (contextAfter openItemTokens)) =
     insertRequests (contextAfter openItemTokens) \<and>
   bulletPresetOf (pendingListItems (handleTextToken (textToken ''[x] '') (contextAfter openItemTokens)) ! 0) =
     BULLET_CHECKBOX"
proof -
  have tk: "tokenizerFor taskListMarkdown taskListTokens taskListMarkdown = taskListTokens"
    by (simp add: tokenizerFor_def)
  note th = task_prefix_stripped_once
      [of "tokenizerFor taskListMarkdown taskListTokens" rejectEveryColor]
  from th tk have conv: "convertMarkdownToRequests (tokenizerFor taskListMarkdown taskListTokens)
      rejectEveryColor taskListMarkdown 1 None = Inr taskListRequests" by blast
  from openItem_pass have a: "getCurrentOpenListItem (contextAfter openItemTokens) = Some 0"
    and b: "\<not> taskPrefixProcessed (pendingListItems (contextAfter openItemTokens) ! 0)"
    and b': "taskPrefixProcessed (pendingListItems (contextAfter openItemTokens) ! 0) = False"
    and m: "taskPrefixMatch (content (textToken ''[x] '')) = Some 4"
    and d: "drop 4 (content (textToken ''[x] '')) = []" by simp_all
  from emptyText_pass have e: "content (textToken []) = []"
    and m2: "taskPrefixMatch (content (textToken ''[x] a'')) = Some 4"
    and d2: "drop 4 (content (textToken ''[x] a'')) = ''a''"
    and ci: "currentIndex (contextAfter openItemTokens) = 1"
    and tb: "tabId (contextAfter openItemTokens) = None"
    and ir: "insertRequests (contextAfter openItemTokens) = []" by blast+
  from th e have sk: "handleTextToken (textToken []) (contextAfter openItemTokens) =
      contextAfter openItemTokens" by blast
  from d2 have ne: "drop 4 (content (textToken ''[x] a'')) \<noteq> []" by simp
  from m2 have ne2: "content (textToken ''[x] a'') \<noteq> []" by auto
  from th a b m2 ne
  have s1: "insertRequests (handleTextToken (textToken ''[x] a'') (contextAfter openItemTokens)) =
      insertRequests (contextAfter openItemTokens) @
      [InsertText \<lparr>loc_index = currentIndex (contextAfter openItemTokens),
                   loc_tabId = (if truthy (tabId (contextAfter openItemTokens))
                                then tabId (contextAfter openItemTokens) else None)\<rparr>
         (drop 4 (content (textToken ''[x] a'')))]"
    and s2: "bulletPresetOf (pendingListItems
        (handleTextToken (textToken ''[x] a'') (contextAfter openItemTokens)) ! 0) = BULLET_CHECKBOX"
    by blast+
  from s1 have s1': "insertRequests (handleTextToken (textToken ''[x] a'') (contextAfter openItemTokens)) =
     [InsertText \<lparr>loc_index = 1, loc_tabId = None\<rparr> ''a'']"
    unfolding d2 ci tb ir by simp
  from th a ne2
  have s3: "taskPrefixProcessed
     (pendingListItems (handleTextToken (textToken ''[x] a'') (contextAfter openItemTokens)) ! 0)"
    by blast
  from th a b m d have s4: "insertRequests (handleTextToken (textToken ''[x] '') (contextAfter openItemTokens)) =
     insertRequests (contextAfter openItemTokens)"
    and s5: "bulletPresetOf (pendingListItems (handleTextToken (textToken ''[x] '') (contextAfter openItemTokens)) ! 0) =
     BULLET_CHECKBOX" by blast+
  from tk conv a b' e sk m2 d2 s1' s2 s3 m d s4 s5 show ?thesis by (intro conjI)
qed


section \<open>Errors\<close>

subsection \<open>The pass over the leaves\<close>

lemma processTokens_append:
  "processTokens (xs @ ys) c =
     (case processTokens xs c of Inl err \<Rightarrow> Inl err | Inr c' \<Rightarrow> processTokens ys c')"
  by (induction xs arbitrary: c) (simp_all split: sum.splits)

lemma processTokens_single: "processTokens [t] c = processToken t c"
  by (simp split: sum.splits)

lemma processTokens_flatten:
  "processToken t c = processTokens (flattenToken t) c"
  "processTokens ts c = processTokens (flattenTokens ts) c"
proof (induction t c and ts c rule: processToken_processTokens.induct)
  case (1 ty tg cnt ats chs ctx)
  show ?case
  proof (cases "ty = T_inline")
    case True
    show ?thesis
    proof (cases chs)
      case None
      with True show ?thesis by simp
    next
      case (Some cs)
      with True "1.IH"[OF refl True Some] show ?thesis by simp
    qed
  next
    case False
    then have "flattenToken (Token ty tg cnt ats chs) = [Token ty tg cnt ats chs]" by simp
    then show ?thesis by (simp only: processTokens_single)
  qed
next
  case (2 ctx)
  show ?case by simp
next
  case (3 t ts ctx)
  show ?case
  proof (cases "processToken t ctx")
    case (Inl err)
    with "3.IH"(1) have "processTokens (flattenToken t) ctx = Inl err" by simp
    with Inl show ?thesis by (simp add: processTokens_append)
  next
    case (Inr c1)
    with "3.IH"(1) have "processTokens (flattenToken t) ctx = Inr c1" by simp
    with Inr "3.IH"(2)[OF Inr] show ?thesis by (simp add: processTokens_append)
  qed
qed

lemma flatten_leaves:
  "\<forall>x \<in> set (flattenToken t). ttype x \<noteq> T_inline"
  "\<forall>x \<in> set (flattenTokens ts). ttype x \<noteq> T_inline"
  by (induction t and ts rule: flattenToken_flattenTokens.induct) (auto split: option.splits)

lemma leaf_step_or_stray:
  assumes leaf: "ttype t \<noteq> T_inline" and v: "validItemIndices c"
  shows "(ttype t = T_list_item_open \<and> listStack c = [] \<and>
          processToken t c = Inl (MarkdownConversionError listItemOutsideListMessage)) \<or>
         (\<not> (ttype t = T_list_item_open \<and> listStack c = []) \<and>
          (\<exists>c'. processToken t c = Inr c' \<and> validItemIndices c' \<and>
             length (listStack c') =
               (if ttype t = T_bullet_list_open \<or> ttype t = T_ordered_list_open then Suc (length (listStack c))
                else if ttype t = T_bullet_list_close \<or> ttype t = T_ordered_list_close
                then length (listStack c) - 1
                else length (listStack c))))"
proof (cases "processToken t c")
  case (Inl err)
  from processToken_leaf_error[OF leaf Inl] v have "ttype t = T_list_item_open" "handleListItemOpen c = Inl err"
    by (auto dest: listItemClose_error)
  with Inl show ?thesis by (simp add: listItemOpen_error)
next
  case (Inr c')
  have "\<not> (ttype t = T_list_item_open \<and> listStack c = [])"
  proof
    assume a: "ttype t = T_list_item_open \<and> listStack c = []"
    with processToken_leaf[OF leaf Inr] have "handleListItemOpen c = Inr c'"
      by (auto simp: codeBlockArm_def tableStructure_def)
    with a show False by (simp add: handleListItemOpen_def)
  qed
  with valid_leaf[OF leaf Inr v] Inr show ?thesis by blast
qed

lemma stray_leaves:
  assumes "\<forall>t \<in> set ts. ttype t \<noteq> T_inline" and "validItemIndices c"
  shows "(strayListItem (length (listStack c)) ts \<longrightarrow>
            processTokens ts c = Inl (MarkdownConversionError listItemOutsideListMessage)) \<and>
         (\<not> strayListItem (length (listStack c)) ts \<longrightarrow> (\<exists>c'. processTokens ts c = Inr c'))"
  using assms
proof (induction ts arbitrary: c)
  case Nil
  show ?case by simp
next
  case (Cons t ts)
  from Cons.prems have leaf: "ttype t \<noteq> T_inline" and rest: "\<forall>t \<in> set ts. ttype t \<noteq> T_inline" by simp_all
  from leaf_step_or_stray[OF leaf Cons.prems(2)] show ?case
  proof (elim disjE conjE exE)
    assume "ttype t = T_list_item_open" "listStack c = []"
      "processToken t c = Inl (MarkdownConversionError listItemOutsideListMessage)"
    then show ?thesis by simp
  next
    fix c'
    assume ns: "\<not> (ttype t = T_list_item_open \<and> listStack c = [])"
      and st: "processToken t c = Inr c'" and v': "validItemIndices c'"
      and len: "length (listStack c') =
               (if ttype t = T_bullet_list_open \<or> ttype t = T_ordered_list_open then Suc (length (listStack c))
                else if ttype t = T_bullet_list_close \<or> ttype t = T_ordered_list_close
                then length (listStack c) - 1
                else length (listStack c))"
    have "strayListItem (length (listStack c)) (t # ts) = strayListItem (length (listStack c')) ts"
      using ns len by auto
    with Cons.IH[OF rest v'] st show ?thesis by simp
  qed
qed

lemma validItemIndices_initialContext: "validItemIndices (initialContext s tab)"
  by (simp add: validItemIndices_def initialContext_def)

lemma pass_stray:
  "(processTokens ts (initialContext s tab) = Inl (MarkdownConversionError listItemOutsideListMessage)) =
   strayListItem 0 (flattenTokens ts)"
proof -
  have d: "length (listStack (initialContext s tab)) = 0" by (simp add: initialContext_def)
  have "\<forall>t \<in> set (flattenTokens ts). ttype t \<noteq> T_inline" by (rule flatten_leaves(2))
  from stray_leaves[OF this validItemIndices_initialContext[of s tab]]
       processTokens_flatten(2)[of ts "initialContext s tab"]
  show ?thesis unfolding d by auto
qed

lemma finalize_error:
  "finalizeFormatting hex c = Inl err \<Longrightarrow> \<exists>m. err = UserError m"
proof -
  have b: "\<And>s e st tab err. buildUpdateTextStyleRequest hex s e st tab = Inl err \<Longrightarrow> \<exists>m. err = UserError m"
    by (auto simp: buildUpdateTextStyleRequest_def Let_def split: option.splits sum.splits if_splits)
  have r: "\<And>tab r err. textRangeRequests hex tab r = Inl err \<Longrightarrow> \<exists>m. err = UserError m"
    unfolding textRangeRequests_def Let_def
    by (auto split: if_splits sum.splits option.splits dest: b)
  have rs: "\<And>tab rs err. textRangesRequests hex tab rs = Inl err \<Longrightarrow> \<exists>m. err = UserError m"
  proof -
    fix tab rs err show "textRangesRequests hex tab rs = Inl err \<Longrightarrow> \<exists>m. err = UserError m"
      by (induction rs) (auto split: sum.splits dest: r)
  qed
  assume "finalizeFormatting hex c = Inl err"
  then show ?thesis
    by (auto simp: finalizeFormatting_def split: sum.splits dest: rs)
qed


lemma pass_error:
  assumes "processTokens ts (initialContext s tab) = Inl err"
  shows "err = MarkdownConversionError listItemOutsideListMessage"
proof -
  have d: "length (listStack (initialContext s tab)) = 0" by (simp add: initialContext_def)
  have "\<forall>t \<in> set (flattenTokens ts). ttype t \<noteq> T_inline" by (rule flatten_leaves(2))
  from stray_leaves[OF this validItemIndices_initialContext[of s tab]]
       processTokens_flatten(2)[of ts "initialContext s tab"] assms
  show ?thesis unfolding d by (cases "strayListItem 0 (flattenTokens ts)") auto
qed

lemma tryBlock_error:
  assumes "tryBlock hex ts (initialContext s tab) = Inl err"
  shows "(err = MarkdownConversionError listItemOutsideListMessage \<and>
          processTokens ts (initialContext s tab) = Inl err) \<or>
         (\<exists>m. err = UserError m)"
  using assms
  by (auto simp: tryBlock_def split: sum.splits dest: pass_error finalize_error)

lemma prefixed_message_differs:
  "listItemOutsideListMessage \<noteq> ''Failed to convert markdown: '' @ m0"
  by (simp add: listItemOutsideListMessage_def)

lemma convert_unfold:
  "convertMarkdownToRequests parseMarkdown hex markdown s tab =
     (if markdown = [] \<or> length (trim markdown) = 0 then Inr []
      else catchBlock (tryBlock hex (parseMarkdown markdown) (initialContext s tab)))"
  by (simp add: convertMarkdownToRequests_def Let_def)

lemma spliceFirst_none: "\<forall>x \<in> set xs. \<not> P x \<Longrightarrow> spliceFirst P xs = xs"
  by (induction xs) simp_all

lemma popFormatting_unmatched:
  assumes "\<forall>f \<in> set (formattingStack c). \<not> hasKey k f"
  shows "popFormatting c k = c"
proof -
  from assms have "spliceLast (hasKey k) (formattingStack c) = formattingStack c"
    by (simp add: spliceLast_def spliceFirst_none)
  then show ?thesis by (simp add: popFormatting_def)
qed

text \<open>
  Claim C5. The conversion raises the error of a list item outside of a list exactly when
  the markdown is not blank and the walk over the tokens meets a \<^verbatim>\<open>list_item_open\<close>
  token while no list is open. An unmatched close token leaves the context as it is and
  raises nothing: a \<^verbatim>\<open>list_item_close\<close> with no open item, a \<^verbatim>\<open>heading_close\<close> with
  no active heading level, and a close of strong, emphasis, strikethrough or link with no
  fragment of that key on the formatting stack.
\<close>

theorem caller_error_iff_stray_list_item:
  "(convertMarkdownToRequests parseMarkdown hexToRgbColor markdown s tab =
      Inl (MarkdownConversionError listItemOutsideListMessage)) =
     (\<not> (markdown = [] \<or> length (trim markdown) = 0) \<and>
      strayListItem 0 (flattenTokens (parseMarkdown markdown))) \<and>
   (\<forall>tok c. ttype tok = T_list_item_close \<longrightarrow> openListItemStack c = [] \<longrightarrow>
      processToken tok c = Inr c) \<and>
   (\<forall>tok c. ttype tok = T_heading_close \<longrightarrow> currentHeadingLevel c = None \<longrightarrow>
      processToken tok c = Inr c) \<and>
   (\<forall>tok c. ttype tok = T_strong_close \<longrightarrow> (\<forall>f \<in> set (formattingStack c). bold f = None) \<longrightarrow>
      processToken tok c = Inr c) \<and>
   (\<forall>tok c. ttype tok = T_em_close \<longrightarrow> (\<forall>f \<in> set (formattingStack c). italic f = None) \<longrightarrow>
      processToken tok c = Inr c) \<and>
   (\<forall>tok c. ttype tok = T_s_close \<longrightarrow> (\<forall>f \<in> set (formattingStack c). strikethrough f = None) \<longrightarrow>
      processToken tok c = Inr c) \<and>
   (\<forall>tok c. ttype tok = T_link_close \<longrightarrow> (\<forall>f \<in> set (formattingStack c). link f = None) \<longrightarrow>
      processToken tok c = Inr c)"
proof (intro conjI allI impI)
  show "(convertMarkdownToRequests parseMarkdown hexToRgbColor markdown s tab =
      Inl (MarkdownConversionError listItemOutsideListMessage)) =
     (\<not> (markdown = [] \<or> length (trim markdown) = 0) \<and>
      strayListItem 0 (flattenTokens (parseMarkdown markdown)))"
  proof (cases "markdown = [] \<or> length (trim markdown) = 0")
    case True
    then show ?thesis by (simp add: convert_unfold)
  next
    case False
    show ?thesis
    proof (cases "tryBlock hexToRgbColor (parseMarkdown markdown) (initialContext s tab)")
      case (Inr ops)
      then have "\<exists>c. processTokens (parseMarkdown markdown) (initialContext s tab) = Inr c"
        by (auto simp: tryBlock_def split: sum.splits)
      with Inr False show ?thesis
        using pass_stray[of "parseMarkdown markdown" s tab]
        by (auto simp: convert_unfold catchBlock_def)
    next
      case (Inl err)
      from tryBlock_error[OF Inl] show ?thesis
      proof (elim disjE conjE exE)
        assume "err = MarkdownConversionError listItemOutsideListMessage"
          "processTokens (parseMarkdown markdown) (initialContext s tab) = Inl err"
        with Inl False pass_stray[of "parseMarkdown markdown" s tab] show ?thesis
          by (simp add: convert_unfold catchBlock_def)
      next
        fix m assume m: "err = UserError m"
        with Inl have "\<exists>c. processTokens (parseMarkdown markdown) (initialContext s tab) = Inr c"
          by (auto simp: tryBlock_def split: sum.splits dest: pass_error)
        then have ns: "\<not> strayListItem 0 (flattenTokens (parseMarkdown markdown))"
          using pass_stray[of "parseMarkdown markdown" s tab] by auto
        have conv: "convertMarkdownToRequests parseMarkdown hexToRgbColor markdown s tab =
            Inl (MarkdownConversionError (''Failed to convert markdown: '' @ m))"
          using Inl False m by (simp add: convert_unfold catchBlock_def)
        have "(Inl (MarkdownConversionError (''Failed to convert markdown: '' @ m)) :: error + request list) \<noteq>
            Inl (MarkdownConversionError listItemOutsideListMessage)"
          using prefixed_message_differs[of m] by (simp only: sum.inject error.inject) (rule not_sym)
        with ns show ?thesis unfolding conv by (simp only: simp_thms)
      qed
    qed
  qed
next
  fix tok and c :: conversionContext assume "ttype tok = T_list_item_close" "openListItemStack c = []"
  then show "processToken tok c = Inr c" by (cases tok) (simp add: handleListItemClose_def)
next
  fix tok and c :: conversionContext assume "ttype tok = T_heading_close" "currentHeadingLevel c = None"
  then show "processToken tok c = Inr c" by (cases tok) (simp add: handleHeadingClose_def)
next
  fix tok and c :: conversionContext assume "ttype tok = T_strong_close" "\<forall>f \<in> set (formattingStack c). bold f = None"
  then show "processToken tok c = Inr c" by (cases tok) (simp add: popFormatting_unmatched)
next
  fix tok and c :: conversionContext assume "ttype tok = T_em_close" "\<forall>f \<in> set (formattingStack c). italic f = None"
  then show "processToken tok c = Inr c" by (cases tok) (simp add: popFormatting_unmatched)
next
  fix tok and c :: conversionContext assume "ttype tok = T_s_close" "\<forall>f \<in> set (formattingStack c). strikethrough f = None"
  then show "processToken tok c = Inr c" by (cases tok) (simp add: popFormatting_unmatched)
next
  fix tok and c :: conversionContext assume "ttype tok = T_link_close" "\<forall>f \<in> set (formattingStack c). link f = None"
  then show "processToken tok c = Inr c" by (cases tok) (simp add: popFormatting_unmatched)
qed

lemma strayItem_facts:
  "\<not> (''x'' = [] \<or> length (trim ''x'') = 0) \<and>
   strayListItem 0 (flattenTokens (tokenizerFor ''x'' strayItemTokens ''x'')) \<and>
   ttype (blockToken T_list_item_close ''li'') = T_list_item_close \<and>
   openListItemStack (initialContext 1 None) = []"
  by code_simp

theorem caller_error_iff_stray_list_item_witness:
  "strayListItem 0 (flattenTokens (tokenizerFor ''x'' strayItemTokens ''x'')) \<and>
   convertMarkdownToRequests (tokenizerFor ''x'' strayItemTokens) rejectEveryColor ''x'' 1 None =
     Inl (MarkdownConversionError listItemOutsideListMessage) \<and>
   ttype (blockToken T_list_item_close ''li'') = T_list_item_close \<and>
   openListItemStack (initialContext 1 None) = [] \<and>
   processToken (blockToken T_list_item_close ''li'') (initialContext 1 None) = Inr (initialContext 1 None)"
  using caller_error_iff_stray_list_item [of "tokenizerFor ''x'' strayItemTokens" rejectEveryColor "''x''" 1 None]
        strayItem_facts
  by blast


subsection \<open>The class of a conversion error\<close>

lemma codeSpan_conversion:
  "convertMarkdownToRequests (tokenizerFor ''`x`'' codeSpanTokens) rejectEveryColor ''`x`'' 1 None =
     Inl (MarkdownConversionError
            ''Failed to convert markdown: Invalid foreground hex color format: #188038'')"
  by code_simp

lemma strayItem_conversion:
  "convertMarkdownToRequests (tokenizerFor ''x'' strayItemTokens) rejectEveryColor ''x'' 1 None =
     Inl (MarkdownConversionError ''List item found outside of list context'')"
  by code_simp

text \<open>
  Claim C6 says that the error that wraps an internal fault can be told from the caller
  input error by its type or tag. Both are thrown as \<^verbatim>\<open>MarkdownConversionError\<close>: the
  conversion of a code span with a colour parser that rejects the code colour (an
  internal fault of the style builder) and the conversion of a list item outside of a
  list raise errors of the same class, and so does the \<^verbatim>\<open>catch\<close> clause for any other
  fault.
\<close>

theorem internal_and_caller_errors_same_class:
  "thrownErrorName
     (convertMarkdownToRequests (tokenizerFor ''`x`'' codeSpanTokens) rejectEveryColor ''`x`'' 1 None) =
     Some ''MarkdownConversionError'' \<and>
   thrownErrorName
     (convertMarkdownToRequests (tokenizerFor ''x'' strayItemTokens) rejectEveryColor ''x'' 1 None) =
     Some ''MarkdownConversionError'' \<and>
   thrownErrorName (catchBlock (Inl (TypeError ''boom'') :: error + request list)) =
     thrownErrorName (catchBlock
       (Inl (MarkdownConversionError ''List item found outside of list context'') :: error + request list))"
  by (simp add: codeSpan_conversion strayItem_conversion catchBlock_def)

text \<open>
  Claim C6, amended. A conversion that fails raises one \<^verbatim>\<open>MarkdownConversionError\<close> and
  returns no request. The error is either the caller input error of a list item outside
  of a list, thrown again as it is, or the wrapping of an internal fault, whose message is
  \<^verbatim>\<open>Failed to convert markdown: \<close> followed by the message of the fault. The two have
  the same class and differ in their message only: the message of the caller input error
  never starts with the prefix of the wrapping.
\<close>

theorem conversion_error_is_one_class:
  "(\<forall>err. convertMarkdownToRequests parseMarkdown hexToRgbColor markdown s tab = Inl err \<longrightarrow>
      (err = MarkdownConversionError listItemOutsideListMessage \<and>
       tryBlock hexToRgbColor (parseMarkdown markdown) (initialContext s tab) = Inl err) \<or>
      (\<exists>inner. tryBlock hexToRgbColor (parseMarkdown markdown) (initialContext s tab) = Inl inner \<and>
         inner \<noteq> MarkdownConversionError (message inner) \<and>
         err = MarkdownConversionError (''Failed to convert markdown: '' @ message inner))) \<and>
   (\<forall>inner :: error. inner \<noteq> MarkdownConversionError (message inner) \<longrightarrow>
      (catchBlock (Inl inner) :: error + request list) =
        Inl (MarkdownConversionError (''Failed to convert markdown: '' @ message inner))) \<and>
   (\<forall>m. (catchBlock (Inl (MarkdownConversionError m)) :: error + request list) =
        Inl (MarkdownConversionError m)) \<and>
   (\<forall>m0. listItemOutsideListMessage \<noteq> ''Failed to convert markdown: '' @ m0) \<and>
   (\<forall>err. convertMarkdownToRequests parseMarkdown hexToRgbColor markdown s tab = Inl err \<longrightarrow>
      thrownErrorName (convertMarkdownToRequests parseMarkdown hexToRgbColor markdown s tab) =
        Some ''MarkdownConversionError'' \<and>
      resultRequests (convertMarkdownToRequests parseMarkdown hexToRgbColor markdown s tab) = [])"
proof (intro conjI allI impI)
  fix err
  assume conv: "convertMarkdownToRequests parseMarkdown hexToRgbColor markdown s tab = Inl err"
  then have nb: "\<not> (markdown = [] \<or> length (trim markdown) = 0)"
    by (auto simp: convert_unfold)
  with conv have cb: "catchBlock (tryBlock hexToRgbColor (parseMarkdown markdown) (initialContext s tab)) = Inl err"
    by (simp add: convert_unfold)
  then obtain inner where inner: "tryBlock hexToRgbColor (parseMarkdown markdown) (initialContext s tab) = Inl inner"
    by (auto simp: catchBlock_def split: sum.splits)
  from tryBlock_error[OF inner]
  show "(err = MarkdownConversionError listItemOutsideListMessage \<and>
       tryBlock hexToRgbColor (parseMarkdown markdown) (initialContext s tab) = Inl err) \<or>
      (\<exists>inner. tryBlock hexToRgbColor (parseMarkdown markdown) (initialContext s tab) = Inl inner \<and>
         inner \<noteq> MarkdownConversionError (message inner) \<and>
         err = MarkdownConversionError (''Failed to convert markdown: '' @ message inner))"
  proof (elim disjE conjE exE)
    assume "inner = MarkdownConversionError listItemOutsideListMessage"
    with cb inner show ?thesis by (simp add: catchBlock_def)
  next
    fix m assume "inner = UserError m"
    with cb inner show ?thesis by (auto simp: catchBlock_def)
  qed
  from cb show "thrownErrorName (convertMarkdownToRequests parseMarkdown hexToRgbColor markdown s tab) =
        Some ''MarkdownConversionError''"
    unfolding conv by (auto simp: catchBlock_def split: sum.splits error.splits)
  show "resultRequests (convertMarkdownToRequests parseMarkdown hexToRgbColor markdown s tab) = []"
    unfolding conv by simp
next
  fix inner :: error
  assume "inner \<noteq> MarkdownConversionError (message inner)"
  then show "(catchBlock (Inl inner) :: error + request list) =
        Inl (MarkdownConversionError (''Failed to convert markdown: '' @ message inner))"
    by (cases inner) (simp_all add: catchBlock_def)
next
  fix m show "(catchBlock (Inl (MarkdownConversionError m)) :: error + request list) =
        Inl (MarkdownConversionError m)"
    by (simp add: catchBlock_def)
next
  fix m0 show "listItemOutsideListMessage \<noteq> ''Failed to convert markdown: '' @ m0"
    by (rule prefixed_message_differs)
qed

theorem conversion_error_is_one_class_witness:
  "convertMarkdownToRequests (tokenizerFor ''`x`'' codeSpanTokens) rejectEveryColor ''`x`'' 1 None =
     Inl (MarkdownConversionError
            ''Failed to convert markdown: Invalid foreground hex color format: #188038'') \<and>
   thrownErrorName
     (convertMarkdownToRequests (tokenizerFor ''`x`'' codeSpanTokens) rejectEveryColor ''`x`'' 1 None) =
     Some ''MarkdownConversionError'' \<and>
   resultRequests
     (convertMarkdownToRequests (tokenizerFor ''`x`'' codeSpanTokens) rejectEveryColor ''`x`'' 1 None) = []"
  using conversion_error_is_one_class [of "tokenizerFor ''`x`'' codeSpanTokens" rejectEveryColor "''`x`''" 1 None]
        codeSpan_conversion
  by blast


section \<open>Bullet assignments\<close>

lemma nestedList_conversion:
  "convertMarkdownToRequests (tokenizerFor nestedListMarkdown nestedListTokens) hexToRgbColor
     nestedListMarkdown 1 None =
     Inr nestedListRequests"
  by code_simp

text \<open>
  Claim C2 says that the bullet assignments come in strictly descending order of their
  start offsets. For \<^verbatim>\<open>- - foo\<close>, a list item whose content is a nested list, the
  outer and the inner item both start at offset 1 (the inner item starts at its indent
  marker) and both end at 5: the two bullet assignments have the same start offset.
\<close>

theorem nested_list_bullets_start_at_same_offset:
  "bulletStarts (resultRequests
     (convertMarkdownToRequests (tokenizerFor nestedListMarkdown nestedListTokens) rejectEveryColor
        nestedListMarkdown 1 None)) = [1, 1] \<and>
   \<not> sorted_wrt (\<lambda>earlier later. later < earlier)
       (bulletStarts (resultRequests
          (convertMarkdownToRequests (tokenizerFor nestedListMarkdown nestedListTokens) rejectEveryColor
             nestedListMarkdown 1 None)))"
  by (simp add: nestedList_conversion nestedListRequests_def)

lemma bulletStarts_append [simp]: "bulletStarts (xs @ ys) = bulletStarts xs @ bulletStarts ys"
  by (induction xs rule: bulletStarts.induct) simp_all

lemma bulletStarts_noBullets: "\<forall>q \<in> set xs. \<not> isBullet q \<Longrightarrow> bulletStarts xs = []"
  by (induction xs rule: bulletStarts.induct) simp_all

lemma bulletStarts_items:
  "\<forall>item \<in> set items. hasRange item \<Longrightarrow>
   bulletStarts (concat (map (listItemRequests tab) items)) = map li_startIndex items"
  by (induction items) (simp_all add: listItemRequests_shape mkRange_def)

lemma listItemsForFormatting_sorted:
  "sorted_wrt (\<lambda>a b. li_startIndex b \<le> li_startIndex a) (listItemsForFormatting items)"
proof -
  have "sorted (map (\<lambda>a. - li_startIndex a) (listItemsForFormatting items))"
    by (simp add: listItemsForFormatting_def)
  then show ?thesis by (simp add: sorted_map)
qed

lemma listItemsForFormatting_mset:
  "mset (listItemsForFormatting items) = mset (filter hasRange items)"
  by (simp add: listItemsForFormatting_def)

lemma styleOver_noBullet: "styleOver a b q \<Longrightarrow> \<not> isBullet q"
  by (simp add: styleOver_def)

lemma mixedList_conversion:
  "convertMarkdownToRequests (tokenizerFor mixedListMarkdown mixedListTokens) hexToRgbColor
     mixedListMarkdown 1 None =
     Inr mixedListRequests"
  by code_simp

lemma mixedList_items:
  "map itemRange (filter hasRange (passItems
      (processTokens (tokenizerFor mixedListMarkdown mixedListTokens mixedListMarkdown)
         (initialContext 1 None)))) =
     [(1, Some 5, BULLET_DISC_CIRCLE_SQUARE), (1, Some 5, NUMBERED_DECIMAL_ALPHA_ROMAN)] \<and>
   bulletRanges mixedListRequests =
     [(1, Some 5, BULLET_DISC_CIRCLE_SQUARE), (1, Some 5, NUMBERED_DECIMAL_ALPHA_ROMAN)] \<and>
   mixedListRequests \<noteq> []"
  by code_simp

lemma bulletRanges_append [simp]: "bulletRanges (xs @ ys) = bulletRanges xs @ bulletRanges ys"
  by (induction xs rule: bulletRanges.induct) simp_all

lemma bulletRanges_noBullets: "\<forall>q \<in> set xs. \<not> isBullet q \<Longrightarrow> bulletRanges xs = []"
  by (induction xs rule: bulletRanges.induct) simp_all

lemma bulletRanges_items:
  "\<forall>item \<in> set items. hasRange item \<Longrightarrow>
   bulletRanges (concat (map (listItemRequests tab) items)) = map itemRange items"
  by (induction items)
     (auto simp: listItemRequests_def hasRange_def itemRange_def mkRange_def split: option.splits)

lemma filterBullets_items:
  "\<forall>item \<in> set items. hasRange item \<Longrightarrow>
   filter isBullet (concat (map (listItemRequests tab) items)) = concat (map (listItemRequests tab) items) \<and>
   filter (\<lambda>q. \<not> isBullet q) (concat (map (listItemRequests tab) items)) = [] \<and>
   (\<forall>q \<in> set (concat (map (listItemRequests tab) items)).
      bulletTab q = (if truthy tab then tab else None))"
  by (induction items)
     (auto simp: listItemRequests_def hasRange_def mkRange_def split: option.splits)

lemma listItemsForFormatting_stable:
  "filter (\<lambda>a. li_startIndex a = k) (listItemsForFormatting items) =
   filter (\<lambda>a. li_startIndex a = k) (filter hasRange items)"
proof -
  have "filter (\<lambda>a. - li_startIndex a = - k) (sort_key (\<lambda>a. - li_startIndex a) (filter hasRange items)) =
        filter (\<lambda>a. - li_startIndex a = - k) (filter hasRange items)"
    by (rule sort_key_stable)
  then show ?thesis by (simp add: listItemsForFormatting_def)
qed

lemma hasRange_iff: "hasRange item = (\<exists>e. li_endIndex item = Some e \<and> li_startIndex item < e)"
  by (auto simp: hasRange_def split: option.splits)

text \<open>
  Claim C2, amended. A returned request list is its other requests followed by its
  bullet assignments, which carry the tab of the call. Unless the list is empty, the
  bullet assignments are exactly one for each pending list item whose end offset is set
  and greater than its start offset, over the range from the start to the end of the item
  with its bullet preset. Their start offsets never increase: a later one starts at or
  before an earlier one. Those that start at the same offset come in the order in which
  their items were opened: the sort is stable.
\<close>

theorem bullets_last_in_descending_order:
  assumes "convertMarkdownToRequests parseMarkdown hexToRgbColor markdown s tab = Inr ops"
  shows "ops = filter (\<lambda>q. \<not> isBullet q) ops @ filter isBullet ops \<and>
         sorted_wrt (\<lambda>earlier later. fst later \<le> fst earlier) (bulletRanges ops) \<and>
         (\<forall>q \<in> set (filter isBullet ops). bulletTab q = (if truthy tab then tab else None)) \<and>
         (ops = [] \<or>
          mset (bulletRanges ops) =
            mset (map itemRange
                   (filter (\<lambda>item. \<exists>e. li_endIndex item = Some e \<and> li_startIndex item < e)
                      (passItems (processTokens (parseMarkdown markdown) (initialContext s tab))))) \<and>
          (\<forall>k. filter (\<lambda>b. fst b = k) (bulletRanges ops) =
                filter (\<lambda>b. fst b = k)
                  (map itemRange
                     (filter (\<lambda>item. \<exists>e. li_endIndex item = Some e \<and> li_startIndex item < e)
                        (passItems (processTokens (parseMarkdown markdown) (initialContext s tab)))))))"
proof (cases "ops = []")
  case True
  then show ?thesis by simp
next
  case False
  with convert_result[OF assms]
  have "tryBlock hexToRgbColor (parseMarkdown markdown) (initialContext s tab) = Inr ops" by simp
  from tryBlock_result[OF this] obtain c styles where
    p: "processTokens (parseMarkdown markdown) (initialContext s tab) = Inr c"
    and st: "textRangesRequests hexToRgbColor (tabId c) (textRanges c) = Inr styles"
    and ops0: "ops = insertRequests c @ styles @
                 concat (map (paragraphRangeRequests (tabId c)) (paragraphRanges c)) @
                 map (hrRangeRequest (tabId c)) (hrRanges c) @
                 concat (map (listItemRequests (tabId c)) (listItemsForFormatting (pendingListItems c)))"
    by (auto simp: initialContext_def)
  from frame_pass[OF p] have tab: "tabId c = tab" by (simp add: initialContext_def)
  define others where "others = insertRequests c @ styles @
                 concat (map (paragraphRangeRequests tab) (paragraphRanges c)) @
                 map (hrRangeRequest tab) (hrRanges c)"
  define items where "items = listItemsForFormatting (pendingListItems c)"
  define bullets where "bullets = concat (map (listItemRequests tab) items)"
  have ops: "ops = others @ bullets"
    using ops0 by (simp add: others_def items_def bullets_def tab)
  have "offsetsWithin s c"
    by (rule offsetsWithin_pass[OF p offsetsWithin_initialContext])
  then have ins: "\<forall>q \<in> set (insertRequests c). isInsertText q" by (simp add: offsetsWithin_def)
  have nb: "\<forall>q \<in> set others. \<not> isBullet q"
  proof
    fix q assume "q \<in> set others"
    then consider "q \<in> set (insertRequests c)" | "q \<in> set styles"
      | p where "p \<in> set (paragraphRanges c)" "q \<in> set (paragraphRangeRequests tab p)"
      | h where "h \<in> set (hrRanges c)" "q = hrRangeRequest tab h"
      by (auto simp: others_def)
    then show "\<not> isBullet q"
    proof cases
      case 1
      with ins have "isInsertText q" by simp
      then show ?thesis by (cases q) simp_all
    next
      case 2
      with textRangesRequests_shape[OF st] show ?thesis by (auto dest: styleOver_noBullet)
    next
      case 3
      with paragraphRangeRequests_shape[of tab p] show ?thesis by (auto dest: styleOver_noBullet)
    next
      case 4
      with hrRangeRequest_shape[of h tab] show ?thesis by (auto dest: styleOver_noBullet)
    qed
  qed
  have hr: "\<forall>item \<in> set items. hasRange item"
    by (simp add: items_def set_listItemsForFormatting)
  note fb = filterBullets_items[OF hr, of tab, folded bullets_def]
  have f1: "filter isBullet others = []" "filter (\<lambda>q. \<not> isBullet q) others = others"
    using nb by (simp_all add: filter_empty_conv filter_id_conv)
  have fo: "filter isBullet ops = bullets" "filter (\<lambda>q. \<not> isBullet q) ops = others"
    unfolding ops using f1 fb by simp_all
  have br: "bulletRanges ops = map itemRange items"
    unfolding ops bullets_def by (simp add: bulletRanges_noBullets[OF nb] bulletRanges_items[OF hr])
  have pi: "passItems (processTokens (parseMarkdown markdown) (initialContext s tab)) = pendingListItems c"
    by (simp add: p)
  have hrf: "filter (\<lambda>item. \<exists>e. li_endIndex item = Some e \<and> li_startIndex item < e) (pendingListItems c) =
             filter hasRange (pendingListItems c)"
    by (rule filter_cong) (simp_all add: hasRange_iff)
  have a: "ops = filter (\<lambda>q. \<not> isBullet q) ops @ filter isBullet ops"
    unfolding fo by (rule ops)
  have srt: "sorted_wrt (\<lambda>a b. li_startIndex b \<le> li_startIndex a) items"
    unfolding items_def by (rule listItemsForFormatting_sorted)
  have b: "sorted_wrt (\<lambda>earlier later. fst later \<le> fst earlier) (bulletRanges ops)"
    unfolding br using srt by (simp add: sorted_wrt_map itemRange_def)
  have t: "\<forall>q \<in> set (filter isBullet ops). bulletTab q = (if truthy tab then tab else None)"
    unfolding fo using fb by blast
  have m: "mset (bulletRanges ops) = mset (map itemRange (filter hasRange (pendingListItems c)))"
    unfolding br items_def by (simp add: listItemsForFormatting_mset)
  have k: "filter (\<lambda>b. fst b = k) (bulletRanges ops) =
           filter (\<lambda>b. fst b = k) (map itemRange (filter hasRange (pendingListItems c)))" for k
  proof -
    have "filter (\<lambda>b. fst b = k) (map itemRange xs) =
          map itemRange (filter (\<lambda>a. li_startIndex a = k) xs)" for xs
      by (simp add: filter_map o_def itemRange_def)
    then show ?thesis
      unfolding br items_def by (simp add: listItemsForFormatting_stable)
  qed
  from a b t m k show ?thesis unfolding pi hrf by blast
qed

theorem bullets_last_in_descending_order_witness:
  "convertMarkdownToRequests (tokenizerFor mixedListMarkdown mixedListTokens) rejectEveryColor
     mixedListMarkdown 1 None = Inr mixedListRequests \<and>
   mixedListRequests \<noteq> [] \<and>
   bulletRanges mixedListRequests =
     [(1, Some 5, BULLET_DISC_CIRCLE_SQUARE), (1, Some 5, NUMBERED_DECIMAL_ALPHA_ROMAN)] \<and>
   map itemRange (filter hasRange (passItems
      (processTokens (tokenizerFor mixedListMarkdown mixedListTokens mixedListMarkdown)
         (initialContext 1 None)))) =
     [(1, Some 5, BULLET_DISC_CIRCLE_SQUARE), (1, Some 5, NUMBERED_DECIMAL_ALPHA_ROMAN)] \<and>
   sorted_wrt (\<lambda>earlier later. fst later \<le> fst earlier) (bulletRanges mixedListRequests) \<and>
   filter (\<lambda>b. fst b = 1) (bulletRanges mixedListRequests) =
     filter (\<lambda>b. fst b = 1)
       (map itemRange
          (filter (\<lambda>item. \<exists>e. li_endIndex item = Some e \<and> li_startIndex item < e)
             (passItems (processTokens (tokenizerFor mixedListMarkdown mixedListTokens mixedListMarkdown)
                (initialContext 1 None)))))"
proof -
  note conv = mixedList_conversion [of rejectEveryColor]
  note th = bullets_last_in_descending_order [OF conv]
  from mixedList_items have ne: "mixedListRequests \<noteq> []" by blast
  from th have s: "sorted_wrt (\<lambda>earlier later. fst later \<le> fst earlier) (bulletRanges mixedListRequests)"
    by blast
  from th ne have "filter (\<lambda>b. fst b = 1) (bulletRanges mixedListRequests) =
     filter (\<lambda>b. fst b = 1)
       (map itemRange
          (filter (\<lambda>item. \<exists>e. li_endIndex item = Some e \<and> li_startIndex item < e)
             (passItems (processTokens (tokenizerFor mixedListMarkdown mixedListTokens mixedListMarkdown)
                (initialContext 1 None)))))" by blast
  with conv mixedList_items s show ?thesis by blast
qed


section \<open>The formatting stack\<close>

lemma lastDefined_alt:
  "lastDefined field stack =
     (if filter (\<lambda>v. v \<noteq> None) (map field stack) = [] then None
      else last (filter (\<lambda>v. v \<noteq> None) (map field stack)))"
  by (simp add: lastDefined_def split: list.splits)

lemma lastDefined_Nil [simp]: "lastDefined field [] = None"
  by (simp add: lastDefined_alt)

lemma lastDefined_snoc [simp]:
  "lastDefined field (xs @ [x]) = (if field x \<noteq> None then field x else lastDefined field xs)"
  by (simp add: lastDefined_alt)

lemma mergeFormattingStack_lastWriterWins:
  "mergeFormattingStack stack = lastWriterWins stack"
proof (induction stack rule: rev_induct)
  case Nil
  show ?case by (simp add: mergeFormattingStack_def lastWriterWins_def emptyFormatting_def)
next
  case (snoc x xs)
  have "mergeFormattingStack (xs @ [x]) = mergeState (mergeFormattingStack xs) x"
    by (simp add: mergeFormattingStack_def)
  also have "\<dots> = mergeState (lastWriterWins xs) x" by (simp add: snoc.IH)
  also have "\<dots> = lastWriterWins (xs @ [x])"
    by (simp add: mergeState_def lastWriterWins_def Let_def)
  finally show ?case .
qed

lemma handleTextToken_records:
  "(insertRequests (handleTextToken tok c) = insertRequests c \<and>
    textRanges (handleTextToken tok c) = textRanges c) \<or>
   (\<exists>emitted. emitted \<noteq> [] \<and>
      insertRequests (handleTextToken tok c) =
        insertRequests c @
        [InsertText \<lparr>loc_index = currentIndex c,
                     loc_tabId = (if truthy (tabId c) then tabId c else None)\<rparr> emitted] \<and>
      textRanges (handleTextToken tok c) =
        textRanges c @
        (if hasFormatting (lastWriterWins (formattingStack c))
         then [\<lparr>startIndex = currentIndex c, endIndex = currentIndex c + int (length emitted),
                formatting = lastWriterWins (formattingStack c)\<rparr>]
         else []))"
proof -
  obtain y c1 where st: "stripTaskPrefix (content tok) c = (y, c1)"
    by (cases "stripTaskPrefix (content tok) c")
  from stripTaskPrefix_frame[OF st] show ?thesis
    by (cases "content tok = []"; cases "y = []")
       (simp_all add: handleTextToken_def Let_def st mergeFormattingStack_lastWriterWins)
qed

lemma handleCodeInlineToken_records:
  "(insertRequests (handleCodeInlineToken tok c) = insertRequests c \<and>
    textRanges (handleCodeInlineToken tok c) = textRanges c) \<or>
   (\<exists>emitted. emitted \<noteq> [] \<and>
      insertRequests (handleCodeInlineToken tok c) =
        insertRequests c @
        [InsertText \<lparr>loc_index = currentIndex c,
                     loc_tabId = (if truthy (tabId c) then tabId c else None)\<rparr> emitted] \<and>
      textRanges (handleCodeInlineToken tok c) =
        textRanges c @
        [\<lparr>startIndex = currentIndex c, endIndex = currentIndex c + int (length emitted),
          formatting = lastWriterWins (formattingStack c @ [emptyFormatting\<lparr>code := Some True\<rparr>])\<rparr>])"
proof -
  have hf: "hasFormatting (lastWriterWins (formattingStack c @ [emptyFormatting\<lparr>code := Some True\<rparr>]))"
    by (simp add: hasFormatting_def lastWriterWins_def emptyFormatting_def)
  define c0 where "c0 = pushFormatting (emptyFormatting\<lparr>code := Some True\<rparr>) c"
  have a: "insertRequests (handleCodeInlineToken tok c) = insertRequests (handleTextToken tok c0)"
    "textRanges (handleCodeInlineToken tok c) = textRanges (handleTextToken tok c0)"
    by (simp_all add: handleCodeInlineToken_def popFormatting_def c0_def)
  have f0: "currentIndex c0 = currentIndex c" "insertRequests c0 = insertRequests c"
    "textRanges c0 = textRanges c" "tabId c0 = tabId c"
    "formattingStack c0 = formattingStack c @ [emptyFormatting\<lparr>code := Some True\<rparr>]"
    by (simp_all add: c0_def pushFormatting_def)
  from handleTextToken_records[of tok c0] hf show ?thesis
    unfolding a f0 by simp
qed

subsection \<open>Recorded ranges are never rewritten\<close>

lemma codeLines_textRanges: "\<exists>new. textRanges (codeLines ls c) = textRanges c @ new"
proof (induction ls arbitrary: c)
  case Nil
  show ?case by simp
next
  case (Cons l ls)
  have "\<exists>a. textRanges (codeLine l c) = textRanges c @ a"
    by (simp add: codeLine_def Let_def)
  moreover from Cons.IH[of "codeLine l c"]
  have "\<exists>b. textRanges (codeLines ls (codeLine l c)) = textRanges (codeLine l c) @ b" .
  ultimately show ?case by auto
qed

lemma handlers_textRanges [simp]:
  "textRanges (handleHeadingOpen t c) = textRanges c"
  "textRanges (handleHeadingClose c) = textRanges c"
  "textRanges (handleParagraphOpen c) = textRanges c"
  "textRanges (handleParagraphClose c) = textRanges c"
  "textRanges (pushFormatting f c) = textRanges c"
  "textRanges (popFormatting c k) = textRanges c"
  "textRanges (handleHorizontalRule c) = textRanges c"
  by (simp_all add: handleHeadingOpen_def handleHeadingClose_def handleParagraphOpen_def
        handleParagraphClose_def pushFormatting_def popFormatting_def
        handleHorizontalRule_def Let_def split: option.splits)

lemma listItem_textRanges:
  "handleListItemOpen c = Inr c' \<Longrightarrow> textRanges c' = textRanges c"
  "handleListItemClose c = Inr c' \<Longrightarrow> textRanges c' = textRanges c"
  by (auto simp: handleListItemOpen_def handleListItemClose_def Let_def split: if_splits)

lemma textRanges_leaf:
  assumes "ttype t \<noteq> T_inline" and "processToken t c = Inr c'"
  shows "\<exists>new. textRanges c' = textRanges c @ new"
proof -
  from processToken_leaf[OF assms] show ?thesis
  proof (elim disjE conjE exE)
    assume "c' = handleTextToken t c"
    with handleTextToken_records[of t c] show ?thesis by auto
  next
    assume "c' = handleCodeInlineToken t c"
    with handleCodeInlineToken_records[of t c] show ?thesis by auto
  next
    assume "c' = handleCodeBlockToken t c"
    with codeLines_textRanges show ?thesis by (simp add: handleCodeBlockToken_def Let_def)
  qed (simp_all add: listItem_textRanges)
qed

lemma textRanges_pass:
  assumes "processTokens ts c = Inr c'"
  shows "\<exists>new. textRanges c' = textRanges c @ new"
  by (rule processTokens_rel(2)[where R = "\<lambda>c c'. \<exists>new. textRanges c' = textRanges c @ new", OF _ _ _ assms])
     (auto dest: textRanges_leaf)


lemma stripTaskPrefix_empty: "fst (stripTaskPrefix [] c) = []"
  by (simp add: stripTaskPrefix_def Let_def split: option.splits)

lemma stripTaskPrefix_outside: "getCurrentOpenListItem c = None \<Longrightarrow> stripTaskPrefix x c = (x, c)"
  by (simp add: stripTaskPrefix_def)

lemma stripTaskPrefix_pushFormatting:
  "fst (stripTaskPrefix x (pushFormatting f c)) = fst (stripTaskPrefix x c)"
  by (simp add: stripTaskPrefix_def pushFormatting_def getCurrentOpenListItem_def Let_def
           split: option.splits)

lemma handleTextToken_exact:
  "formattingStack (handleTextToken tok c) = formattingStack c \<and>
   insertRequests (handleTextToken tok c) =
     insertRequests c @
     (if fst (stripTaskPrefix (content tok) c) = [] then []
      else [InsertText \<lparr>loc_index = currentIndex c,
                        loc_tabId = (if truthy (tabId c) then tabId c else None)\<rparr>
              (fst (stripTaskPrefix (content tok) c))]) \<and>
   textRanges (handleTextToken tok c) =
     textRanges c @
     (if fst (stripTaskPrefix (content tok) c) \<noteq> [] \<and> hasFormatting (lastWriterWins (formattingStack c))
      then [\<lparr>startIndex = currentIndex c,
             endIndex = currentIndex c + int (length (fst (stripTaskPrefix (content tok) c))),
             formatting = lastWriterWins (formattingStack c)\<rparr>]
      else [])"
proof -
  obtain y c1 where st: "stripTaskPrefix (content tok) c = (y, c1)"
    by (cases "stripTaskPrefix (content tok) c")
  from stripTaskPrefix_frame[OF st] stripTaskPrefix_empty[of c] show ?thesis
    by (cases "content tok = []"; cases "y = []")
       (simp_all add: handleTextToken_def Let_def st mergeFormattingStack_lastWriterWins)
qed

lemma spliceLast_snoc: "P x \<Longrightarrow> spliceLast P (xs @ [x]) = xs"
  by (simp add: spliceLast_def)

lemma handleCodeInlineToken_exact:
  "formattingStack (handleCodeInlineToken tok c) = formattingStack c \<and>
   insertRequests (handleCodeInlineToken tok c) =
     insertRequests c @
     (if fst (stripTaskPrefix (content tok) c) = [] then []
      else [InsertText \<lparr>loc_index = currentIndex c,
                        loc_tabId = (if truthy (tabId c) then tabId c else None)\<rparr>
              (fst (stripTaskPrefix (content tok) c))]) \<and>
   textRanges (handleCodeInlineToken tok c) =
     textRanges c @
     (if fst (stripTaskPrefix (content tok) c) \<noteq> []
      then [\<lparr>startIndex = currentIndex c,
             endIndex = currentIndex c + int (length (fst (stripTaskPrefix (content tok) c))),
             formatting = lastWriterWins (formattingStack c @ [emptyFormatting\<lparr>code := Some True\<rparr>])\<rparr>]
      else [])"
proof -
  have hf: "hasFormatting (lastWriterWins (formattingStack c @ [emptyFormatting\<lparr>code := Some True\<rparr>]))"
    by (simp add: hasFormatting_def lastWriterWins_def emptyFormatting_def)
  define c0 where "c0 = pushFormatting (emptyFormatting\<lparr>code := Some True\<rparr>) c"
  have a: "insertRequests (handleCodeInlineToken tok c) = insertRequests (handleTextToken tok c0)"
    "textRanges (handleCodeInlineToken tok c) = textRanges (handleTextToken tok c0)"
    "formattingStack (handleCodeInlineToken tok c) =
       spliceLast (hasKey K_code) (formattingStack (handleTextToken tok c0))"
    by (simp_all add: handleCodeInlineToken_def popFormatting_def c0_def)
  have f0: "currentIndex c0 = currentIndex c" "insertRequests c0 = insertRequests c"
    "textRanges c0 = textRanges c" "tabId c0 = tabId c"
    "formattingStack c0 = formattingStack c @ [emptyFormatting\<lparr>code := Some True\<rparr>]"
    "fst (stripTaskPrefix (content tok) c0) = fst (stripTaskPrefix (content tok) c)"
    by (simp_all add: c0_def stripTaskPrefix_pushFormatting) (simp_all add: pushFormatting_def)
  have sp: "spliceLast (hasKey K_code) (formattingStack c @ [emptyFormatting\<lparr>code := Some True\<rparr>]) =
            formattingStack c"
    by (rule spliceLast_snoc) (simp add: emptyFormatting_def)
  from handleTextToken_exact[of tok c0] hf sp show ?thesis
    unfolding a f0 by simp
qed

lemma hasFormatting_iff:
  "hasFormatting f =
     (truthyB (bold f) \<or> truthyB (italic f) \<or> truthyB (strikethrough f) \<or> truthyB (code f) \<or>
      link f \<noteq> None)"
proof -
  have "truthyB b = (b = Some True)" for b by (cases b rule: truthyB.cases) simp_all
  then show ?thesis by (simp add: hasFormatting_def)
qed

lemma close_keeps_textRanges:
  assumes "ttype t \<in> {T_strong_close, T_em_close, T_s_close, T_link_close}"
    and "processToken t c = Inr c'"
  shows "textRanges c' = textRanges c \<and> insertRequests c' = insertRequests c"
proof -
  from assms(1) have "ttype t \<noteq> T_inline" by auto
  from processToken_leaf[OF this assms(2)] assms(1) show ?thesis
    by (auto simp: codeBlockArm_def tableStructure_def popFormatting_def)
qed


lemma styled_pass:
  "ttype (textToken ''x'') = T_text \<and>
   processToken (textToken ''x'') (contextAfter styleOpenTokens) =
     Inr (contextAfter (styleOpenTokens @ [textToken ''x''])) \<and>
   fst (stripTaskPrefix (content (textToken ''x'')) (contextAfter styleOpenTokens)) = ''x'' \<and>
   hasFormatting (lastWriterWins (formattingStack (contextAfter styleOpenTokens))) \<and>
   lastWriterWins (formattingStack (contextAfter styleOpenTokens)) =
     emptyFormatting\<lparr>bold := Some True, italic := Some True\<rparr> \<and>
   currentIndex (contextAfter styleOpenTokens) = 1 \<and>
   tabId (contextAfter styleOpenTokens) = None \<and>
   insertRequests (contextAfter styleOpenTokens) = [] \<and>
   textRanges (contextAfter styleOpenTokens) = [] \<and>
   processTokens crossedCloseTokens (contextAfter (styleOpenTokens @ [textToken ''x''])) =
     Inr (contextAfter (styleOpenTokens @ [textToken ''x''] @ crossedCloseTokens)) \<and>
   textRanges (contextAfter (styleOpenTokens @ [textToken ''x''] @ crossedCloseTokens)) =
     [\<lparr>startIndex = 1, endIndex = 2,
       formatting = emptyFormatting\<lparr>bold := Some True, italic := Some True\<rparr>\<rparr>,
      \<lparr>startIndex = 2, endIndex = 3, formatting = emptyFormatting\<lparr>italic := Some True\<rparr>\<rparr>] \<and>
   insertTexts (insertRequests (contextAfter (styleOpenTokens @ [textToken ''x''] @ crossedCloseTokens))) =
     [(1, ''x''), (2, ''y''), (3, ''z'')]"
  by code_simp

lemma lastWriterWins_sample:
  "lastWriterWins
     [emptyFormatting\<lparr>link := Some ''a''\<rparr>, emptyFormatting\<lparr>bold := Some True\<rparr>,
      emptyFormatting\<lparr>link := Some ''b''\<rparr>] =
   emptyFormatting\<lparr>bold := Some True, link := Some ''b''\<rparr>"
  by code_simp

text \<open>
  Claim C3. The merge of the formatting stack is the last-writer-wins fold: each field
  has the value of the newest fragment that defines it. The step of a text token inserts
  the text that is left after the task prefix check (the content itself outside of a list
  item) at the current offset, unless nothing is left, and leaves the stack as it is. When
  it inserts, it records one range over the inserted text that carries the fold of the
  stack as it is at that moment, if the fold has a field set to true or a link, and no
  range otherwise. The step of inline code does the same with its code fragment on top of
  the stack, so it records a range whenever it inserts. A recorded range is never
  rewritten: a close token changes neither the ranges nor the insertions, and whatever
  tokens follow, in any order, the ranges recorded so far stay, in order, at the front of
  the list. (The lines of a code block are not text tokens: their handler records the code
  style by itself.)
\<close>

theorem text_span_style_is_last_writer_wins:
  "mergeFormattingStack stack = lastWriterWins stack \<and>
   (\<forall>tok c. ttype tok = T_text \<longrightarrow>
      (\<exists>c' emitted.
         processToken tok c = Inr c' \<and> emitted = fst (stripTaskPrefix (content tok) c) \<and>
         formattingStack c' = formattingStack c \<and>
         insertRequests c' =
           insertRequests c @
           (if emitted = [] then []
            else [InsertText \<lparr>loc_index = currentIndex c,
                              loc_tabId = (if truthy (tabId c) then tabId c else None)\<rparr> emitted]) \<and>
         textRanges c' =
           textRanges c @
           (if emitted \<noteq> [] \<and> hasFormatting (lastWriterWins (formattingStack c))
            then [\<lparr>startIndex = currentIndex c, endIndex = currentIndex c + int (length emitted),
                   formatting = lastWriterWins (formattingStack c)\<rparr>]
            else []))) \<and>
   (\<forall>tok c. ttype tok = T_code_inline \<longrightarrow>
      (\<exists>c' emitted.
         processToken tok c = Inr c' \<and> emitted = fst (stripTaskPrefix (content tok) c) \<and>
         formattingStack c' = formattingStack c \<and>
         insertRequests c' =
           insertRequests c @
           (if emitted = [] then []
            else [InsertText \<lparr>loc_index = currentIndex c,
                              loc_tabId = (if truthy (tabId c) then tabId c else None)\<rparr> emitted]) \<and>
         textRanges c' =
           textRanges c @
           (if emitted \<noteq> []
            then [\<lparr>startIndex = currentIndex c, endIndex = currentIndex c + int (length emitted),
                   formatting =
                     lastWriterWins (formattingStack c @ [emptyFormatting\<lparr>code := Some True\<rparr>])\<rparr>]
            else []))) \<and>
   (\<forall>x c. getCurrentOpenListItem c = None \<longrightarrow> fst (stripTaskPrefix x c) = x) \<and>
   (\<forall>f. hasFormatting f =
      (truthyB (bold f) \<or> truthyB (italic f) \<or> truthyB (strikethrough f) \<or> truthyB (code f) \<or>
       link f \<noteq> None)) \<and>
   (\<forall>t c c'. ttype t \<in> {T_strong_close, T_em_close, T_s_close, T_link_close} \<longrightarrow>
      processToken t c = Inr c' \<longrightarrow>
      textRanges c' = textRanges c \<and> insertRequests c' = insertRequests c) \<and>
   (\<forall>ts c c'. processTokens ts c = Inr c' \<longrightarrow> (\<exists>new. textRanges c' = textRanges c @ new))"
proof (intro conjI allI impI)
  show "mergeFormattingStack stack = lastWriterWins stack"
    by (rule mergeFormattingStack_lastWriterWins)
next
  fix tok c assume "ttype tok = T_text"
  then have "processToken tok c = Inr (handleTextToken tok c)" by (rule processToken_text)
  with handleTextToken_exact[of tok c]
  show "\<exists>c' emitted.
         processToken tok c = Inr c' \<and> emitted = fst (stripTaskPrefix (content tok) c) \<and>
         formattingStack c' = formattingStack c \<and>
         insertRequests c' =
           insertRequests c @
           (if emitted = [] then []
            else [InsertText \<lparr>loc_index = currentIndex c,
                              loc_tabId = (if truthy (tabId c) then tabId c else None)\<rparr> emitted]) \<and>
         textRanges c' =
           textRanges c @
           (if emitted \<noteq> [] \<and> hasFormatting (lastWriterWins (formattingStack c))
            then [\<lparr>startIndex = currentIndex c, endIndex = currentIndex c + int (length emitted),
                   formatting = lastWriterWins (formattingStack c)\<rparr>]
            else [])"
    by blast
next
  fix tok c assume "ttype tok = T_code_inline"
  then have "processToken tok c = Inr (handleCodeInlineToken tok c)" by (rule processToken_code_inline)
  with handleCodeInlineToken_exact[of tok c]
  show "\<exists>c' emitted.
         processToken tok c = Inr c' \<and> emitted = fst (stripTaskPrefix (content tok) c) \<and>
         formattingStack c' = formattingStack c \<and>
         insertRequests c' =
           insertRequests c @
           (if emitted = [] then []
            else [InsertText \<lparr>loc_index = currentIndex c,
                              loc_tabId = (if truthy (tabId c) then tabId c else None)\<rparr> emitted]) \<and>
         textRanges c' =
           textRanges c @
           (if emitted \<noteq> []
            then [\<lparr>startIndex = currentIndex c, endIndex = currentIndex c + int (length emitted),
                   formatting =
                     lastWriterWins (formattingStack c @ [emptyFormatting\<lparr>code := Some True\<rparr>])\<rparr>]
            else [])"
    by blast
next
  fix x c assume "getCurrentOpenListItem c = None"
  then show "fst (stripTaskPrefix x c) = x" by (simp add: stripTaskPrefix_outside)
next
  fix f show "hasFormatting f =
      (truthyB (bold f) \<or> truthyB (italic f) \<or> truthyB (strikethrough f) \<or> truthyB (code f) \<or>
       link f \<noteq> None)" by (rule hasFormatting_iff)
next
  fix t c c'
  assume "ttype t \<in> {T_strong_close, T_em_close, T_s_close, T_link_close}" "processToken t c = Inr c'"
  then have "textRanges c' = textRanges c \<and> insertRequests c' = insertRequests c"
    by (rule close_keeps_textRanges)
  then show "textRanges c' = textRanges c" and "insertRequests c' = insertRequests c" by simp_all
next
  fix ts c c' assume "processTokens ts c = Inr c'"
  then show "\<exists>new. textRanges c' = textRanges c @ new" by (rule textRanges_pass)
qed

theorem text_span_style_is_last_writer_wins_witness:
  "mergeFormattingStack
     [emptyFormatting\<lparr>link := Some ''a''\<rparr>, emptyFormatting\<lparr>bold := Some True\<rparr>,
      emptyFormatting\<lparr>link := Some ''b''\<rparr>] =
   emptyFormatting\<lparr>bold := Some True, link := Some ''b''\<rparr> \<and>
   ttype (textToken ''x'') = T_text \<and>
   processToken (textToken ''x'') (contextAfter styleOpenTokens) =
     Inr (contextAfter (styleOpenTokens @ [textToken ''x''])) \<and>
   insertRequests (contextAfter (styleOpenTokens @ [textToken ''x''])) =
     [InsertText \<lparr>loc_index = 1, loc_tabId = None\<rparr> ''x''] \<and>
   textRanges (contextAfter (styleOpenTokens @ [textToken ''x''])) =
     [\<lparr>startIndex = 1, endIndex = 2,
       formatting = emptyFormatting\<lparr>bold := Some True, italic := Some True\<rparr>\<rparr>] \<and>
   processTokens crossedCloseTokens (contextAfter (styleOpenTokens @ [textToken ''x''])) =
     Inr (contextAfter (styleOpenTokens @ [textToken ''x''] @ crossedCloseTokens)) \<and>
   (\<exists>new. textRanges (contextAfter (styleOpenTokens @ [textToken ''x''] @ crossedCloseTokens)) =
      textRanges (contextAfter (styleOpenTokens @ [textToken ''x''])) @ new) \<and>
   textRanges (contextAfter (styleOpenTokens @ [textToken ''x''] @ crossedCloseTokens)) =
     [\<lparr>startIndex = 1, endIndex = 2,
       formatting = emptyFormatting\<lparr>bold := Some True, italic := Some True\<rparr>\<rparr>,
      \<lparr>startIndex = 2, endIndex = 3, formatting = emptyFormatting\<lparr>italic := Some True\<rparr>\<rparr>]"
proof -
  note th = text_span_style_is_last_writer_wins
      [of "[emptyFormatting\<lparr>link := Some ''a''\<rparr>, emptyFormatting\<lparr>bold := Some True\<rparr>,
            emptyFormatting\<lparr>link := Some ''b''\<rparr>]"]
  from th have "mergeFormattingStack
     [emptyFormatting\<lparr>link := Some ''a''\<rparr>, emptyFormatting\<lparr>bold := Some True\<rparr>,
      emptyFormatting\<lparr>link := Some ''b''\<rparr>] =
     lastWriterWins
     [emptyFormatting\<lparr>link := Some ''a''\<rparr>, emptyFormatting\<lparr>bold := Some True\<rparr>,
      emptyFormatting\<lparr>link := Some ''b''\<rparr>]" by (rule conjunct1)
  then have a: "mergeFormattingStack
     [emptyFormatting\<lparr>link := Some ''a''\<rparr>, emptyFormatting\<lparr>bold := Some True\<rparr>,
      emptyFormatting\<lparr>link := Some ''b''\<rparr>] =
     emptyFormatting\<lparr>bold := Some True, link := Some ''b''\<rparr>"
    by (simp only: lastWriterWins_sample)
  from styled_pass have ty: "ttype (textToken ''x'') = T_text"
    and st: "processToken (textToken ''x'') (contextAfter styleOpenTokens) =
       Inr (contextAfter (styleOpenTokens @ [textToken ''x'']))"
    and em: "fst (stripTaskPrefix (content (textToken ''x'')) (contextAfter styleOpenTokens)) = ''x''"
    and hf: "hasFormatting (lastWriterWins (formattingStack (contextAfter styleOpenTokens)))"
    and lw: "lastWriterWins (formattingStack (contextAfter styleOpenTokens)) =
       emptyFormatting\<lparr>bold := Some True, italic := Some True\<rparr>"
    and ci: "currentIndex (contextAfter styleOpenTokens) = 1"
    and tb: "tabId (contextAfter styleOpenTokens) = None"
    and ir: "insertRequests (contextAfter styleOpenTokens) = []"
    and tr: "textRanges (contextAfter styleOpenTokens) = []"
    and ps: "processTokens crossedCloseTokens (contextAfter (styleOpenTokens @ [textToken ''x''])) =
       Inr (contextAfter (styleOpenTokens @ [textToken ''x''] @ crossedCloseTokens))"
    and fin: "textRanges (contextAfter (styleOpenTokens @ [textToken ''x''] @ crossedCloseTokens)) =
     [\<lparr>startIndex = 1, endIndex = 2,
       formatting = emptyFormatting\<lparr>bold := Some True, italic := Some True\<rparr>\<rparr>,
      \<lparr>startIndex = 2, endIndex = 3, formatting = emptyFormatting\<lparr>italic := Some True\<rparr>\<rparr>]"
    by blast+
  from th ty obtain c' emitted where
    s1: "processToken (textToken ''x'') (contextAfter styleOpenTokens) = Inr c'"
    and s2: "emitted = fst (stripTaskPrefix (content (textToken ''x'')) (contextAfter styleOpenTokens))"
    and s3: "insertRequests c' =
           insertRequests (contextAfter styleOpenTokens) @
           (if emitted = [] then []
            else [InsertText \<lparr>loc_index = currentIndex (contextAfter styleOpenTokens),
                              loc_tabId = (if truthy (tabId (contextAfter styleOpenTokens))
                                           then tabId (contextAfter styleOpenTokens) else None)\<rparr> emitted])"
    and s4: "textRanges c' =
           textRanges (contextAfter styleOpenTokens) @
           (if emitted \<noteq> [] \<and> hasFormatting (lastWriterWins (formattingStack (contextAfter styleOpenTokens)))
            then [\<lparr>startIndex = currentIndex (contextAfter styleOpenTokens),
                   endIndex = currentIndex (contextAfter styleOpenTokens) + int (length emitted),
                   formatting = lastWriterWins (formattingStack (contextAfter styleOpenTokens))\<rparr>]
            else [])"
    by blast
  from s1 st have c': "c' = contextAfter (styleOpenTokens @ [textToken ''x''])" by simp
  from s2 em have e: "emitted = ''x''" by simp
  have b: "insertRequests (contextAfter (styleOpenTokens @ [textToken ''x''])) =
     [InsertText \<lparr>loc_index = 1, loc_tabId = None\<rparr> ''x'']"
    using s3 unfolding c' e ci tb ir by simp
  have c: "textRanges (contextAfter (styleOpenTokens @ [textToken ''x''])) =
     [\<lparr>startIndex = 1, endIndex = 2,
       formatting = emptyFormatting\<lparr>bold := Some True, italic := Some True\<rparr>\<rparr>]"
    using s4 hf unfolding c' e ci tr lw by simp
  from th ps
  have d: "\<exists>new. textRanges (contextAfter (styleOpenTokens @ [textToken ''x''] @ crossedCloseTokens)) =
      textRanges (contextAfter (styleOpenTokens @ [textToken ''x''])) @ new"
    by blast
  from a ty st b c ps d fin show ?thesis by (intro conjI)
qed


section \<open>Line terminators\<close>

lemma doublyTerminated_snoc:
  "doublyTerminated (xs @ [r]) =
     (doublyTerminated xs \<or> (xs \<noteq> [] \<and> endsInNewline (last xs) \<and> isNewlineInsert r))"
  by (induction xs rule: doublyTerminated.induct) auto

lemma lastInsertEndsWithNewline_last:
  "lastInsertEndsWithNewline c = (insertRequests c \<noteq> [] \<and> endsInNewline (last (insertRequests c)))"
  by (cases "last (insertRequests c)")
     (auto simp: lastInsertEndsWithNewline_def lastInsertText_def)

lemma quietStep_keeps:
  assumes "quietStep c c'" and "\<not> doublyTerminated (insertRequests c)"
  shows "\<not> doublyTerminated (insertRequests c')"
  using assms
  by (auto simp: quietStep_def doublyTerminated_snoc lastInsertEndsWithNewline_last)



lemma handlers_insertRequests [simp]:
  "insertRequests (handleHeadingOpen t c) = insertRequests c"
  "insertRequests (handleParagraphOpen c) = insertRequests c"
  "insertRequests (pushFormatting f c) = insertRequests c"
  "insertRequests (popFormatting c k) = insertRequests c"
  by (simp_all add: handleHeadingOpen_def handleParagraphOpen_def pushFormatting_def
        popFormatting_def split: option.splits)











subsection \<open>Counting the double terminations\<close>











text \<open>
  A token of the table structure has no content and runs the code block handler like an
  empty code block: a blank, its line feed and the line feed after the block.
\<close>

lemma tableRow_step:
  "insertTexts (insertRequests (contextAfter [blockToken T_tr_open ''tr''])) =
     [(1, '' ''), (2, [newline]), (3, [newline])]"
  by code_simp




end
